theory Spec2Isabelle
  imports Main "HOL-Library.Word"
begin

unbundle bit_operations_syntax

section \<open>JavaScript values used by the SDK\<close>

text \<open>
  A JavaScript \<open>bigint\<close> is an unbounded integer: \<^typ>\<open>int\<close>. A \<open>Uint8Array\<close> is a
  list of bytes. A JavaScript string is modelled as a \<^typ>\<open>string\<close> whose characters
  are the code units U+0000 .. U+00FF. Every \<open>throw\<close> of the source is a value
  \<open>Inl e\<close> of the result type \<open>error + 'a\<close>; the error carries the JavaScript class
  of the thrown object and its message.
\<close>

type_synonym bigint = int
type_synonym byte = "8 word"

datatype error =
    Error string
  | SyntaxError string
  | RangeError string
  | ProofGenerationError string

fun message :: "error \<Rightarrow> string" where
  "message (Error m) = m"
| "message (SyntaxError m) = m"
| "message (RangeError m) = m"
| "message (ProofGenerationError m) = m"

text \<open>A JavaScript \<open>number\<close> as far as \<open>BigInt(number)\<close> can tell: an integral value,
  or anything else (a fraction, \<open>NaN\<close>, an infinity), on which \<open>BigInt\<close> throws.\<close>

datatype number = Integral int | NonIntegral

definition BigInt_of_number :: "number \<Rightarrow> error + bigint" where
  "BigInt_of_number x =
     (case x of
        Integral i \<Rightarrow> Inr i
      | NonIntegral \<Rightarrow>
          Inl (RangeError ''The number cannot be converted to a BigInt because it is not an integer''))"

subsection \<open>Rendering a bigint: \<open>toString(radix)\<close> and \<open>padStart\<close>\<close>

definition digitChar :: "int \<Rightarrow> char" where
  "digitChar d =
     (if d = 0 then CHR ''0'' else if d = 1 then CHR ''1'' else if d = 2 then CHR ''2''
      else if d = 3 then CHR ''3'' else if d = 4 then CHR ''4'' else if d = 5 then CHR ''5''
      else if d = 6 then CHR ''6'' else if d = 7 then CHR ''7'' else if d = 8 then CHR ''8''
      else if d = 9 then CHR ''9'' else if d = 10 then CHR ''a'' else if d = 11 then CHR ''b''
      else if d = 12 then CHR ''c'' else if d = 13 then CHR ''d'' else if d = 14 then CHR ''e''
      else CHR ''f'')"

function toRadix :: "int \<Rightarrow> int \<Rightarrow> string" where
  "toRadix b n =
     (if n < b \<or> b < 2 then [digitChar n]
      else toRadix b (n div b) @ [digitChar (n mod b)])"
  by pat_completeness auto
termination
  by (relation "measure (\<lambda>(b, n). nat n)") (auto simp: int_div_less_self)

declare toRadix.simps [simp del]

text \<open>\<open>v.toString(radix)\<close> for radix 10 and 16: a minus sign, then the digits of
  the absolute value, lowercase, without prefix and without leading zeros.\<close>

definition bigint_toString :: "int \<Rightarrow> bigint \<Rightarrow> string" where
  "bigint_toString radix v =
     (if v < 0 then CHR ''-'' # toRadix radix (- v) else toRadix radix v)"

definition padStart :: "nat \<Rightarrow> char \<Rightarrow> string \<Rightarrow> string" where
  "padStart targetLength c s = replicate (targetLength - length s) c @ s"

subsection \<open>Parsing a bigint: \<open>BigInt(string)\<close>\<close>

definition isWhiteSpace :: "char \<Rightarrow> bool" where
  "isWhiteSpace c =
     (let u = (of_char c :: int)
      in u = 9 \<or> u = 10 \<or> u = 11 \<or> u = 12 \<or> u = 13 \<or> u = 32 \<or> u = 160)"

definition trim :: "string \<Rightarrow> string" where
  "trim s = rev (dropWhile isWhiteSpace (rev (dropWhile isWhiteSpace s)))"

definition digitValue :: "char \<Rightarrow> int option" where
  "digitValue c =
     (let u = (of_char c :: int)
      in if 48 \<le> u \<and> u \<le> 57 then Some (u - 48)
         else if 97 \<le> u \<and> u \<le> 102 then Some (u - 87)
         else if 65 \<le> u \<and> u \<le> 70 then Some (u - 55)
         else None)"

fun parseDigits :: "int \<Rightarrow> int \<Rightarrow> string \<Rightarrow> int option" where
  "parseDigits b acc [] = Some acc"
| "parseDigits b acc (c # cs) =
     (case digitValue c of
        None \<Rightarrow> None
      | Some d \<Rightarrow> if d < b then parseDigits b (acc * b + d) cs else None)"

text \<open>The grammar \<open>StringToBigInt\<close> of ECMAScript: surrounding white space is ignored,
  the empty string is zero, a prefix \<open>0x\<close>, \<open>0o\<close> or \<open>0b\<close> (either case) selects the
  radix and takes no sign, and a decimal literal may carry one sign.\<close>

definition parseNonEmpty :: "int \<Rightarrow> string \<Rightarrow> int option" where
  "parseNonEmpty b ds = (if ds = [] then None else parseDigits b 0 ds)"

fun StringToBigInt_literal :: "string \<Rightarrow> int option" where
  "StringToBigInt_literal [] = Some 0"
| "StringToBigInt_literal [c] = parseNonEmpty 10 [c]"
| "StringToBigInt_literal (c # d # ds) =
     (if c = CHR ''0'' \<and> (d = CHR ''x'' \<or> d = CHR ''X'') then parseNonEmpty 16 ds
      else if c = CHR ''0'' \<and> (d = CHR ''o'' \<or> d = CHR ''O'') then parseNonEmpty 8 ds
      else if c = CHR ''0'' \<and> (d = CHR ''b'' \<or> d = CHR ''B'') then parseNonEmpty 2 ds
      else if c = CHR ''-'' then map_option uminus (parseNonEmpty 10 (d # ds))
      else if c = CHR ''+'' then parseNonEmpty 10 (d # ds)
      else parseNonEmpty 10 (c # d # ds))"

definition StringToBigInt :: "string \<Rightarrow> int option" where
  "StringToBigInt s = StringToBigInt_literal (trim s)"

definition BigInt_of_string :: "string \<Rightarrow> error + bigint" where
  "BigInt_of_string s =
     (case StringToBigInt s of
        None \<Rightarrow> Inl (SyntaxError (''Cannot convert '' @ s @ '' to a BigInt''))
      | Some v \<Rightarrow> Inr v)"

subsection \<open>Strings and bytes\<close>

definition startsWith :: "string \<Rightarrow> string \<Rightarrow> bool" where
  "startsWith s pre = (take (length pre) s = pre)"

text \<open>The regular expression \<open>/[a-fA-F]/\<close> of the source, as a test.\<close>

definition isHexLetter :: "char \<Rightarrow> bool" where
  "isHexLetter c =
     (let u = (of_char c :: int) in (97 \<le> u \<and> u \<le> 102) \<or> (65 \<le> u \<and> u \<le> 70))"

definition hasHexLetter :: "string \<Rightarrow> bool" where
  "hasHexLetter s = list_ex isHexLetter s"

text \<open>\<open>new TextEncoder().encode(s)\<close>: UTF-8, one byte for a code unit below U+0080
  and two bytes for U+0080 .. U+00FF.\<close>

definition utf8_of_char :: "char \<Rightarrow> byte list" where
  "utf8_of_char c =
     (let u = (of_char c :: int)
      in if u < 128 then [word_of_int u]
         else [word_of_int (192 + u div 64), word_of_int (128 + u mod 64)])"

definition TextEncoder_encode :: "string \<Rightarrow> byte list" where
  "TextEncoder_encode s = concat (map utf8_of_char s)"

text \<open>The loop \<open>result = (result << 8n) | BigInt(bytes[i])\<close> over the bytes in order,
  shared by \<open>bytesToNumberBE\<close>, \<open>stringToBigInt\<close> and \<open>addressToFieldElement\<close>.\<close>

definition shiftInByte :: "bigint \<Rightarrow> byte \<Rightarrow> bigint" where
  "shiftInByte result b = push_bit 8 result OR uint b"

definition bytesToNumberBE :: "byte list \<Rightarrow> bigint" where
  "bytesToNumberBE bytes = foldl shiftInByte 0 bytes"

section \<open>FieldCodec: \<open>packages/core/src/crypto/utils.ts\<close>\<close>

definition BN254_FIELD_MODULUS :: bigint where
  "BN254_FIELD_MODULUS =
     21888242871839275222246405745257275088548364400416034343698204186575808495617"

text \<open>\<open>addressToFieldElement\<close> in its three steps: the UTF-8 bytes of the string;
  the number made of at most 31 of them, big-endian, then \<open>% BN254_FIELD_MODULUS\<close>
  (the dividend is never negative, so JavaScript's remainder is \<open>mod\<close>); the decimal
  rendering of that number.\<close>

definition fieldValueOfBytes :: "byte list \<Rightarrow> bigint" where
  "fieldValueOfBytes bytes =
     (let maxBytes = min (length bytes) 31;
          v = foldl shiftInByte 0 (take maxBytes bytes)
      in v mod BN254_FIELD_MODULUS)"

definition addressToFieldValue :: "string \<Rightarrow> bigint" where
  "addressToFieldValue address = fieldValueOfBytes (TextEncoder_encode address)"

definition addressToFieldElement :: "string \<Rightarrow> string" where
  "addressToFieldElement address = bigint_toString 10 (addressToFieldValue address)"

text \<open>Errors propagate as exceptions do: the first \<open>Inl\<close> ends the computation.\<close>

definition bindE :: "error + 'a \<Rightarrow> ('a \<Rightarrow> error + 'b) \<Rightarrow> error + 'b" where
  "bindE m f = (case m of Inl e \<Rightarrow> Inl e | Inr x \<Rightarrow> f x)"

text \<open>\<open>toBigInt\<close> of \<open>utils.ts\<close>: the empty string is refused, a \<open>0x\<close> prefix or a
  letter \<open>a-f\<close>/\<open>A-F\<close> anywhere selects hexadecimal, anything else goes to
  \<open>BigInt\<close> unchanged.\<close>

definition toBigInt :: "string \<Rightarrow> error + bigint" where
  "toBigInt v =
     (if v = [] then Inl (Error ''Cannot convert empty string to BigInt'')
      else if startsWith v ''0x'' then BigInt_of_string v
      else if hasHexLetter v then BigInt_of_string (''0x'' @ v)
      else BigInt_of_string v)"



section \<open>Commitment Engine: \<open>utils.ts\<close>, \<open>commitment.ts\<close>, \<open>nullifier.ts\<close>\<close>

text \<open>\<open>hashPoseidon\<close> is the trusted primitive of \<open>circomlibjs\<close>; every function that
  awaits it takes it as the parameter \<open>H\<close>, from the list of inputs to the hash.\<close>

type_synonym poseidon = "bigint list \<Rightarrow> bigint"

definition computeSenderCommitment :: "poseidon \<Rightarrow> string \<Rightarrow> string \<Rightarrow> error + string" where
  "computeSenderCommitment H walletPubkey secret =
     (let walletFieldElement = addressToFieldElement walletPubkey
      in bindE (toBigInt walletFieldElement) (\<lambda>walletBigInt.
         bindE (toBigInt secret) (\<lambda>secretBigInt.
         Inr (bigint_toString 10 (H [walletBigInt, secretBigInt])))))"

definition computePaymentCommitment ::
  "poseidon \<Rightarrow> string \<Rightarrow> string \<Rightarrow> bigint \<Rightarrow> string \<Rightarrow> string \<Rightarrow> error + string" where
  "computePaymentCommitment H senderCommitment receiverCommitment amount tokenMint salt =
     (let tokenFieldElement = addressToFieldElement tokenMint
      in bindE (toBigInt senderCommitment) (\<lambda>senderBigInt.
         bindE (toBigInt receiverCommitment) (\<lambda>receiverBigInt.
         bindE (toBigInt tokenFieldElement) (\<lambda>tokenBigInt.
         bindE (toBigInt salt) (\<lambda>saltBigInt.
         Inr (bigint_toString 10
                (H [senderBigInt, receiverBigInt, amount, tokenBigInt, saltBigInt])))))))"

definition computePaymentNullifier :: "poseidon \<Rightarrow> string \<Rightarrow> string \<Rightarrow> error + string" where
  "computePaymentNullifier H senderSecret paymentCommitment =
     bindE (toBigInt senderSecret) (\<lambda>secretBigInt.
     bindE (toBigInt paymentCommitment) (\<lambda>commitmentBigInt.
     Inr (bigint_toString 10 (H [secretBigInt, commitmentBigInt]))))"

text \<open>\<open>commitment.ts\<close>. The helper \<open>stringToBigInt\<close> reads all the UTF-8 bytes of the
  string, with no bound and no reduction.\<close>

definition stringToBigInt :: "string \<Rightarrow> bigint" where
  "stringToBigInt str = foldl shiftInByte 0 (TextEncoder_encode str)"

definition bytesToHex :: "byte list \<Rightarrow> string" where
  "bytesToHex bytes = concat (map (\<lambda>b. padStart 2 (CHR ''0'') (bigint_toString 16 (uint b))) bytes)"

record PaymentCommitment =
  pc_value :: string
  pc_amount :: number
  pc_recipient :: string
  pc_token :: string
  pc_nonce :: string

text \<open>The optional parameter \<open>nonce\<close> is \<open>None\<close> when the caller leaves it out;
  \<open>nonce || bytesToHex(randomBytes(32))\<close> also replaces the empty string. The bytes
  that \<open>randomBytes(32)\<close> would draw are the argument \<open>rnd\<close>.\<close>

definition nonceOrRandom :: "string option \<Rightarrow> byte list \<Rightarrow> string" where
  "nonceOrRandom nonce rnd =
     (case nonce of
        None \<Rightarrow> bytesToHex rnd
      | Some s \<Rightarrow> if s = [] then bytesToHex rnd else s)"

definition generateCommitment ::
  "poseidon \<Rightarrow> byte list \<Rightarrow> number \<Rightarrow> string \<Rightarrow> string \<Rightarrow> string option
     \<Rightarrow> error + PaymentCommitment" where
  "generateCommitment H rnd amount recipient token nonce =
     (let nonceValue = nonceOrRandom nonce rnd
      in bindE (BigInt_of_number amount) (\<lambda>amountBigInt.
         let recipientBigInt = stringToBigInt recipient;
             tokenBigInt = stringToBigInt token
         in bindE (BigInt_of_string (''0x'' @ nonceValue)) (\<lambda>nonceBigInt.
            Inr \<lparr> pc_value =
                    bigint_toString 16
                      (H [amountBigInt, recipientBigInt, tokenBigInt, nonceBigInt]),
                  pc_amount = amount,
                  pc_recipient = recipient,
                  pc_token = token,
                  pc_nonce = nonceValue \<rparr>)))"

text \<open>The list that \<open>generateCommitment\<close> hands to \<open>hashPoseidon\<close>, or the exception
  thrown by a conversion before the hash is called.\<close>

definition commitmentInputs :: "number \<Rightarrow> string \<Rightarrow> string \<Rightarrow> string \<Rightarrow> error + bigint list" where
  "commitmentInputs amount recipient token nonceValue =
     bindE (BigInt_of_number amount) (\<lambda>amountBigInt.
     bindE (BigInt_of_string (''0x'' @ nonceValue)) (\<lambda>nonceBigInt.
     Inr [amountBigInt, stringToBigInt recipient, stringToBigInt token, nonceBigInt]))"

definition verifyCommitment ::
  "poseidon \<Rightarrow> byte list \<Rightarrow> string \<Rightarrow> number \<Rightarrow> string \<Rightarrow> string \<Rightarrow> string
     \<Rightarrow> error + bool" where
  "verifyCommitment H rnd commitment amount recipient token nonce =
     bindE (generateCommitment H rnd amount recipient token (Some nonce)) (\<lambda>computed.
     Inr (pc_value computed = commitment))"

text \<open>\<open>nullifier.ts\<close>.\<close>

record Nullifier =
  nf_value :: string
  nf_userSecret :: string
  nf_commitment :: string
  nf_index :: number

definition generateNullifier ::
  "poseidon \<Rightarrow> string \<Rightarrow> string \<Rightarrow> number \<Rightarrow> error + Nullifier" where
  "generateNullifier H privateKey commitment paymentIndex =
     bindE (BigInt_of_string (''0x'' @ privateKey)) (\<lambda>userSecretBigInt.
     bindE (BigInt_of_string (''0x'' @ commitment)) (\<lambda>commitmentBigInt.
     bindE (BigInt_of_number paymentIndex) (\<lambda>indexBigInt.
     Inr \<lparr> nf_value =
             bigint_toString 16 (H [userSecretBigInt, commitmentBigInt, indexBigInt]),
           nf_userSecret = privateKey,
           nf_commitment = commitment,
           nf_index = paymentIndex \<rparr>)))"

text \<open>The list that \<open>generateNullifier\<close> hands to \<open>hashPoseidon\<close>.\<close>

definition nullifierInputs :: "string \<Rightarrow> string \<Rightarrow> number \<Rightarrow> error + bigint list" where
  "nullifierInputs privateKey commitment paymentIndex =
     bindE (BigInt_of_string (''0x'' @ privateKey)) (\<lambda>userSecretBigInt.
     bindE (BigInt_of_string (''0x'' @ commitment)) (\<lambda>commitmentBigInt.
     bindE (BigInt_of_number paymentIndex) (\<lambda>indexBigInt.
     Inr [userSecretBigInt, commitmentBigInt, indexBigInt])))"

definition verifyNullifier ::
  "poseidon \<Rightarrow> string \<Rightarrow> string \<Rightarrow> string \<Rightarrow> number \<Rightarrow> error + bool" where
  "verifyNullifier H nullifier privateKey commitment paymentIndex =
     bindE (generateNullifier H privateKey commitment paymentIndex) (\<lambda>computed.
     Inr (nf_value computed = nullifier))"

section \<open>Proof Input Assembler: \<open>packages/client/src/proof-generator.ts\<close>\<close>

text \<open>\<open>ensureFieldElement\<close> returns the value reduced modulo the field modulus when it
  is too large (the source also writes a warning to the console, which is not part of
  the result), and throws only on a negative value.\<close>

definition ensureFieldElement :: "bigint \<Rightarrow> string \<Rightarrow> error + bigint" where
  "ensureFieldElement v name =
     (if v \<ge> BN254_FIELD_MODULUS then Inr (v mod BN254_FIELD_MODULUS)
      else if v < 0 then Inl (Error (name @ '' cannot be negative: '' @ bigint_toString 10 v))
      else Inr v)"

definition pubkeyToFieldElement :: "string \<Rightarrow> error + string" where
  "pubkeyToFieldElement pubkey =
     (let clean = (if startsWith pubkey ''0x'' then drop 2 pubkey else pubkey);
          truncated = take 62 clean
      in bindE (BigInt_of_string (''0x'' @ truncated)) (\<lambda>v.
         bindE (ensureFieldElement v ''pubkeyToFieldElement'') (\<lambda>fieldValue.
         Inr (''0x'' @ padStart 64 (CHR ''0'') (bigint_toString 16 fieldValue)))))"

record ProofInputs =
  senderCommitment :: string
  senderSecret :: string
  receiverCommitment :: string
  amount :: bigint
  tokenMint :: string
  salt :: string
  merklePath :: "string list"
  pathIndices :: "number list"
  encryptedC1 :: string
  encryptedC2 :: string
  elgamalRandomness :: string
  shadowidRoot :: string
  maxAmount :: bigint
  receiverElGamalPubkey :: string

text \<open>The object \<open>circuitInputs\<close>: its entries in insertion order, as
  \<open>Object.entries\<close> lists them. A value is a decimal string or one of the two arrays.\<close>

datatype circuit_value =
    Scalar string
  | StringArray "string list"
  | NumberArray "number list"

type_synonym circuitInputs = "(string \<times> circuit_value) list"

definition hexToBigInt :: "string \<Rightarrow> error + bigint" where
  "hexToBigInt hex =
     (let cleanHex = (if startsWith hex ''0x'' then drop 2 hex else hex)
      in BigInt_of_string (''0x'' @ cleanHex))"

definition tokenMintFieldElement :: "string \<Rightarrow> error + string" where
  "tokenMintFieldElement tm =
     (if tm = ''SOL'' \<or> tm = ''0'' then Inr ''0''
      else if startsWith tm ''0x'' \<or> hasHexLetter tm
        then bindE (hexToBigInt tm) (\<lambda>v. Inr (bigint_toString 10 v))
      else Inr tm)"

text \<open>One entry \<open>ensureFieldElement(hexToBigInt(inputs.x), 'name').toString()\<close>, and one
  entry \<open>ensureFieldElement(inputs.x, 'name').toString()\<close> for a field that is a bigint.\<close>

definition hexEntry :: "string \<Rightarrow> string \<Rightarrow> error + string" where
  "hexEntry hex name =
     bindE (hexToBigInt hex) (\<lambda>v.
     bindE (ensureFieldElement v name) (\<lambda>f. Inr (bigint_toString 10 f)))"

definition bigintEntry :: "bigint \<Rightarrow> string \<Rightarrow> error + string" where
  "bigintEntry v name = bindE (ensureFieldElement v name) (\<lambda>f. Inr (bigint_toString 10 f))"

definition buildCircuitInputs :: "ProofInputs \<Rightarrow> error + circuitInputs" where
  "buildCircuitInputs inputs =
     bindE (tokenMintFieldElement (tokenMint inputs)) (\<lambda>token_mint.
     bindE (hexEntry (senderCommitment inputs) ''sender_commitment'') (\<lambda>sender_commitment.
     bindE (hexEntry (senderSecret inputs) ''sender_secret'') (\<lambda>sender_secret.
     bindE (hexEntry (receiverCommitment inputs) ''receiver_commitment'') (\<lambda>receiver_commitment.
     bindE (bigintEntry (amount inputs) ''amount'') (\<lambda>amount_entry.
     bindE (hexEntry (salt inputs) ''salt'') (\<lambda>salt_entry.
     bindE (hexEntry (encryptedC1 inputs) ''encrypted_amount_c1'') (\<lambda>encrypted_amount_c1.
     bindE (hexEntry (encryptedC2 inputs) ''encrypted_amount_c2'') (\<lambda>encrypted_amount_c2.
     bindE (hexEntry (elgamalRandomness inputs) ''elgamal_randomness'') (\<lambda>elgamal_randomness.
     bindE (hexEntry (shadowidRoot inputs) ''shadowid_root'') (\<lambda>shadowid_root.
     bindE (bigintEntry (maxAmount inputs) ''max_amount'') (\<lambda>max_amount.
     bindE (hexEntry (receiverElGamalPubkey inputs) ''receiver_elgamal_pubkey'')
       (\<lambda>receiver_elgamal_pubkey.
     Inr [(''sender_commitment'', Scalar sender_commitment),
          (''sender_secret'', Scalar sender_secret),
          (''receiver_commitment'', Scalar receiver_commitment),
          (''amount'', Scalar amount_entry),
          (''token_mint'', Scalar token_mint),
          (''salt'', Scalar salt_entry),
          (''merkle_path'', StringArray (merklePath inputs)),
          (''path_indices'', NumberArray (pathIndices inputs)),
          (''encrypted_amount_c1'', Scalar encrypted_amount_c1),
          (''encrypted_amount_c2'', Scalar encrypted_amount_c2),
          (''elgamal_randomness'', Scalar elgamal_randomness),
          (''shadowid_root'', Scalar shadowid_root),
          (''max_amount'', Scalar max_amount),
          (''receiver_elgamal_pubkey'', Scalar receiver_elgamal_pubkey)]))))))))))))"

text \<open>The loop over \<open>Object.entries(circuitInputs)\<close>: arrays are skipped, every other
  value goes through \<open>BigInt\<close> and is compared with the modulus.\<close>

fun checkCircuitInputs :: "circuitInputs \<Rightarrow> error + unit" where
  "checkCircuitInputs [] = Inr ()"
| "checkCircuitInputs ((key, Scalar s) # rest) =
     bindE (BigInt_of_string s) (\<lambda>bigIntValue.
       if bigIntValue \<ge> BN254_FIELD_MODULUS
       then Inl (Error (''Circuit input \"'' @ key @ ''\" exceeds BN254 field modulus''))
       else checkCircuitInputs rest)"
| "checkCircuitInputs ((key, StringArray xs) # rest) = checkCircuitInputs rest"
| "checkCircuitInputs ((key, NumberArray xs) # rest) = checkCircuitInputs rest"

text \<open>The part of \<open>generateProof\<close> before the prover is called: the input vector, or
  the exception thrown while it is built and checked.\<close>

definition assembleCircuitInputs :: "ProofInputs \<Rightarrow> error + circuitInputs" where
  "assembleCircuitInputs inputs =
     bindE (buildCircuitInputs inputs) (\<lambda>ci.
     bindE (checkCircuitInputs ci) (\<lambda>_. Inr ci))"

record 'p GeneratedProof =
  gp_proof :: 'p
  gp_publicSignals :: "string list"

text \<open>\<open>generateProof\<close>: \<open>snarkjs.groth16.fullProve\<close> is the external prover, taken as the
  parameter \<open>fullProve\<close>; whatever is thrown inside the \<open>try\<close> block is rethrown as a
  \<open>ProofGenerationError\<close>.\<close>

definition generateProof ::
  "(circuitInputs \<Rightarrow> error + 'p GeneratedProof) \<Rightarrow> ProofInputs \<Rightarrow> error + 'p GeneratedProof" where
  "generateProof fullProve inputs =
     (case bindE (assembleCircuitInputs inputs) fullProve of
        Inl e \<Rightarrow> Inl (ProofGenerationError (''Failed to generate ZK proof: '' @ message e))
      | Inr r \<Rightarrow> Inr r)"

section \<open>ElGamal Cipher: \<open>packages/core/src/crypto/elgamal.ts\<close>\<close>

text \<open>
  The curve arithmetic is not code of the repository: it is the library
  \<open>@noble/curves\<close> (\<open>bn254.G1\<close>), modelled here from its interface. Its group is
  cyclic of prime order \<open>CURVE.n\<close> with generator \<open>BASE\<close>, so a point is modelled by
  its discrete logarithm: the integer \<open>k\<close> with \<open>0 \<le> k < n\<close> stands for the point
  \<open>k \<cdot> BASE\<close>. \<open>ZERO\<close> is \<open>0\<close>, \<open>BASE\<close> is \<open>1\<close>, \<open>add\<close> and \<open>subtract\<close> are
  addition and subtraction modulo \<open>n\<close>, \<open>equals\<close> is equality. The library's
  \<open>multiply\<close> accepts a scalar only in the range \<open>1 \<le> scalar < n\<close> and throws an
  \<open>Error\<close> otherwise (the loop of \<open>recoverAmountFromPoint\<close> catches exactly this
  exception: "Skip invalid scalars"); the wording of its message varies with the
  version of the library. The affine coordinates that the source writes as
  hexadecimal strings and reads back (\<open>toAffine\<close>, \<open>numberToHex\<close>, \<open>hexToNumber\<close>,
  \<open>fromAffine\<close>) identify the point, the identity included; the model carries the
  point itself.
\<close>

type_synonym point = int

definition CURVE_n :: bigint where
  "CURVE_n = 21888242871839275222246405745257275088548364400416034343698204186575808495617"

definition ZERO :: point where
  "ZERO = 0"

definition BASE :: point where
  "BASE = 1"

definition multiply :: "point \<Rightarrow> bigint \<Rightarrow> error + point" where
  "multiply P scalar =
     (if 1 \<le> scalar \<and> scalar < CURVE_n then Inr ((P * scalar) mod CURVE_n)
      else Inl (Error ''invalid scalar: out of range''))"

definition add :: "point \<Rightarrow> point \<Rightarrow> point" where
  "add P Q = (P + Q) mod CURVE_n"

definition subtract :: "point \<Rightarrow> point \<Rightarrow> point" where
  "subtract P Q = (P - Q) mod CURVE_n"

definition equals :: "point \<Rightarrow> point \<Rightarrow> bool" where
  "equals P Q = (P = Q)"

definition numberToHex :: "bigint \<Rightarrow> string" where
  "numberToHex num = padStart 64 (CHR ''0'') (bigint_toString 16 num)"

definition hexToNumber :: "string \<Rightarrow> error + bigint" where
  "hexToNumber hex = BigInt_of_string (''0x'' @ hex)"

record ElGamalKeypair =
  privateKey :: string
  publicKey :: point

record EncryptedAmount =
  c1 :: point
  c2 :: point

text \<open>The 32 bytes of \<open>randomBytes(32)\<close> are an argument of the two functions that
  draw them.\<close>

definition generateElGamalKeypair :: "byte list \<Rightarrow> error + ElGamalKeypair" where
  "generateElGamalKeypair privateKeyBytes =
     (let privateKeyBigInt = bytesToNumberBE privateKeyBytes mod CURVE_n
      in bindE (multiply BASE privateKeyBigInt) (\<lambda>publicKeyPoint.
         Inr \<lparr> privateKey = numberToHex privateKeyBigInt, publicKey = publicKeyPoint \<rparr>))"

definition encryptAmount :: "bigint \<Rightarrow> point \<Rightarrow> byte list \<Rightarrow> error + EncryptedAmount" where
  "encryptAmount amt pubKey rBytes =
     (let r = bytesToNumberBE rBytes mod CURVE_n
      in bindE (multiply BASE r) (\<lambda>c1Point.
         let pubKeyPoint = pubKey
         in bindE (multiply BASE amt) (\<lambda>messagePoint.
            bindE (multiply pubKeyPoint r) (\<lambda>sharedSecret.
            let c2Point = add messagePoint sharedSecret
            in Inr \<lparr> c1 = c1Point, c2 = c2Point \<rparr>))))"

text \<open>The constant \<open>maxAmount\<close> of \<open>recoverAmountFromPoint\<close>, and its loop
  \<open>for (let i = 1n; i <= maxAmount; i++)\<close>, in which an exception of \<open>multiply\<close> is
  caught and the search goes on.\<close>

definition maxAmount_search :: bigint where
  "maxAmount_search = 10000000"

function recoverLoop :: "point \<Rightarrow> bigint \<Rightarrow> error + bigint" where
  "recoverLoop pt i =
     (if i \<le> maxAmount_search
      then (case multiply BASE i of
              Inl e \<Rightarrow> recoverLoop pt (i + 1)
            | Inr testPoint \<Rightarrow> if equals pt testPoint then Inr i else recoverLoop pt (i + 1))
      else Inl (Error ''Could not decrypt amount (too large or invalid)''))"
  by pat_completeness auto
termination
  by (relation "measure (\<lambda>(pt, i). nat (maxAmount_search + 1 - i))") auto

declare recoverLoop.simps [simp del]

definition recoverAmountFromPoint :: "point \<Rightarrow> error + bigint" where
  "recoverAmountFromPoint pt =
     (if equals pt ZERO then Inr 0 else recoverLoop pt 1)"

definition decryptAmount :: "EncryptedAmount \<Rightarrow> string \<Rightarrow> error + bigint" where
  "decryptAmount encrypted privKey =
     (let c1Point = c1 encrypted;
          c2Point = c2 encrypted
      in bindE (hexToNumber privKey) (\<lambda>privateKeyBigInt.
         bindE (multiply c1Point privateKeyBigInt) (\<lambda>sharedSecret.
         let messagePoint = subtract c2Point sharedSecret
         in recoverAmountFromPoint messagePoint)))"

section \<open>ShadowPay client: the method \<open>pay\<close> of the class \<open>ShadowPay\<close>\<close>

text \<open>
  The class \<open>ShadowPay\<close> of the client package (in this checkout its source is the third
  document of \<open>packages/client/src/types/snarkjs.d.ts\<close>) has the asynchronous method
  \<open>pay\<close> and the private asynchronous method \<open>generateAndSubmitProof\<close>. What \<open>pay\<close>
  returns and when its callbacks run is a matter of the order of jobs, so the method is
  embedded as the jobs it consists of, under the scheduling rules of JavaScript:

  \<^item> a job runs to completion before the next one starts;
  \<^item> the continuation of an async function after \<open>await p\<close>, and a reaction registered
    with \<open>p.then\<close> or \<open>p.catch\<close>, is a job of its own; it is appended to the queue of
    ready jobs when \<open>p\<close> is settled, and the queue is served first in, first out;
  \<^item> a promise that waits for the network or for the prover is settled in a later turn
    of the event loop, which starts only when the queue of ready jobs is empty.

  The outcomes of everything \<open>pay\<close> calls outside itself are the parameters of the run.
\<close>

datatype outcome = Fulfils | Rejects

text \<open>When the awaited promise is settled: at once, so that the continuation is appended
  to the queue of ready jobs where the \<open>await\<close> stands (the earliest the language
  allows), or in a later turn.\<close>

datatype timing = SameTurn | LaterTurn

text \<open>\<open>this.api.settle\<close>: a response with \<open>success\<close> true, a response with \<open>success\<close>
  false (the source then throws), or a rejected request.\<close>

datatype settle_outcome = SettleSuccess | SettleNoSuccess | SettleRejects

text \<open>\<open>options.onProofComplete\<close>: absent, or a function that returns, or one that
  throws.\<close>

datatype callback = NoCallback | CallbackReturns | CallbackThrows

text \<open>
  \<open>env_critical\<close> is the outcome of everything \<open>pay\<close> does up to and including
  \<open>await this.api.authorize(...)\<close> (validation, wallet detection, registration, the two
  commitments, the authorization request): one failure there makes \<open>pay\<close> throw.
  \<open>env_keys\<close> is the outcome of the synchronous beginning of
  \<open>generateAndSubmitProof\<close> (\<open>getOrCreateKeys\<close>, which throws without local storage, and
  \<open>encryptAmount\<close>). The next three pairs are the awaited calls \<open>getMerkleProof\<close>,
  \<open>generateProof\<close> and \<open>settle\<close>.
\<close>

record environment =
  env_critical :: outcome
  env_keys :: outcome
  env_merkle :: outcome
  env_merkleTiming :: timing
  env_prove :: outcome
  env_proveTiming :: timing
  env_settle :: settle_outcome
  env_settleTiming :: timing
  env_callback :: callback

text \<open>What can be observed of a run, in the order in which it happens.\<close>

datatype event =
    AuthorizationReceived
  | BackgroundTaskStarted
  | PayReturned
  | PayThrew
  | CallerReceivedResult
  | CallerReceivedError
  | MerkleProofReceived
  | ProofGenerated
  | SettlementReceived
  | BackgroundErrorLogged
  | ResultMarkedSettled
  | HistorySaved
  | OnProofComplete
  | BackgroundFailureHandled

text \<open>
  The jobs: \<open>pay\<close> resumed after \<open>await this.api.authorize\<close>; the caller resumed after
  \<open>await shadowpay.pay(...)\<close>; \<open>generateAndSubmitProof\<close> resumed after each of its three
  \<open>await\<close>s; the reaction that \<open>.then(...)\<close> registers on the promise of
  \<open>generateAndSubmitProof\<close>; the reaction that \<open>.catch(...)\<close> registers on the promise
  returned by \<open>.then(...)\<close>.
\<close>

datatype job =
    PayAfterAuthorize
  | CallerAfterPay outcome
  | BackgroundAfterMerkleProof
  | BackgroundAfterProof
  | BackgroundAfterSettle
  | ThenReaction outcome
  | CatchReaction outcome

text \<open>The \<open>catch\<close> block of \<open>generateAndSubmitProof\<close>: it logs the error and throws it
  again, which rejects the promise of the background task; the reaction of \<open>.then\<close>
  becomes ready.\<close>

definition rethrowInBackground :: "event list \<times> (timing \<times> job) list" where
  "rethrowInBackground = ([BackgroundErrorLogged], [(SameTurn, ThenReaction Rejects)])"

text \<open>
  One job: the events it produces and the jobs it makes ready, in program order.

  \<open>PayAfterAuthorize\<close>: when the critical path failed, \<open>pay\<close> throws and the caller is
  resumed with the error. Otherwise \<open>pay\<close> builds \<open>result\<close>, calls
  \<open>generateAndSubmitProof\<close>, which runs in the same job up to its first \<open>await\<close> (or
  throws before it), registers the two reactions without awaiting, and executes
  \<open>return result\<close>, which fulfils the promise of \<open>pay\<close> and makes the caller ready.

  \<open>ThenReaction Fulfils\<close> is the callback given to \<open>.then\<close>: it marks the result as
  settled, saves the payment history and calls \<open>onProofComplete\<close> if there is one.
  \<open>ThenReaction Rejects\<close> has no callback to run and passes the rejection on.
  \<open>CatchReaction Rejects\<close> is the callback given to \<open>.catch\<close>.
\<close>

fun exec :: "environment \<Rightarrow> job \<Rightarrow> event list \<times> (timing \<times> job) list" where
  "exec env PayAfterAuthorize =
     (case env_critical env of
        Rejects \<Rightarrow> ([PayThrew], [(SameTurn, CallerAfterPay Rejects)])
      | Fulfils \<Rightarrow>
          (case env_keys env of
             Rejects \<Rightarrow>
               ([AuthorizationReceived, BackgroundTaskStarted, BackgroundErrorLogged, PayReturned],
                [(SameTurn, ThenReaction Rejects), (SameTurn, CallerAfterPay Fulfils)])
           | Fulfils \<Rightarrow>
               ([AuthorizationReceived, BackgroundTaskStarted, PayReturned],
                [(env_merkleTiming env, BackgroundAfterMerkleProof),
                 (SameTurn, CallerAfterPay Fulfils)])))"
| "exec env (CallerAfterPay out) =
     (case out of
        Fulfils \<Rightarrow> ([CallerReceivedResult], [])
      | Rejects \<Rightarrow> ([CallerReceivedError], []))"
| "exec env BackgroundAfterMerkleProof =
     (case env_merkle env of
        Rejects \<Rightarrow> rethrowInBackground
      | Fulfils \<Rightarrow> ([MerkleProofReceived], [(env_proveTiming env, BackgroundAfterProof)]))"
| "exec env BackgroundAfterProof =
     (case env_prove env of
        Rejects \<Rightarrow> rethrowInBackground
      | Fulfils \<Rightarrow> ([ProofGenerated], [(env_settleTiming env, BackgroundAfterSettle)]))"
| "exec env BackgroundAfterSettle =
     (case env_settle env of
        SettleRejects \<Rightarrow> rethrowInBackground
      | SettleNoSuccess \<Rightarrow>
          ([SettlementReceived, BackgroundErrorLogged], [(SameTurn, ThenReaction Rejects)])
      | SettleSuccess \<Rightarrow> ([SettlementReceived], [(SameTurn, ThenReaction Fulfils)]))"
| "exec env (ThenReaction out) =
     (case out of
        Rejects \<Rightarrow> ([], [(SameTurn, CatchReaction Rejects)])
      | Fulfils \<Rightarrow>
          (case env_callback env of
             NoCallback \<Rightarrow>
               ([ResultMarkedSettled, HistorySaved], [(SameTurn, CatchReaction Fulfils)])
           | CallbackReturns \<Rightarrow>
               ([ResultMarkedSettled, HistorySaved, OnProofComplete],
                [(SameTurn, CatchReaction Fulfils)])
           | CallbackThrows \<Rightarrow>
               ([ResultMarkedSettled, HistorySaved, OnProofComplete],
                [(SameTurn, CatchReaction Rejects)])))"
| "exec env (CatchReaction out) =
     (case out of
        Rejects \<Rightarrow> ([BackgroundFailureHandled], [])
      | Fulfils \<Rightarrow> ([], []))"

text \<open>The jobs a job has made ready at once, and those it has left to a later turn.\<close>

definition readyNow :: "(timing \<times> job) list \<Rightarrow> job list" where
  "readyNow scheduled = map snd (filter (\<lambda>(t, k). t = SameTurn) scheduled)"

definition readyLater :: "(timing \<times> job) list \<Rightarrow> job list" where
  "readyLater scheduled = map snd (filter (\<lambda>(t, k). t = LaterTurn) scheduled)"

text \<open>A bound on the work a job can still cause, for the termination of the loop.\<close>

fun weight :: "job \<Rightarrow> nat" where
  "weight PayAfterAuthorize = 14"
| "weight (CallerAfterPay out) = 1"
| "weight BackgroundAfterMerkleProof = 10"
| "weight BackgroundAfterProof = 8"
| "weight BackgroundAfterSettle = 6"
| "weight (ThenReaction out) = 4"
| "weight (CatchReaction out) = 1"

text \<open>The event loop: the first ready job runs, and what it makes ready goes to the end
  of the queue; when no job is ready, the oldest pending call is settled and its
  continuation runs.\<close>

function run :: "environment \<Rightarrow> job list \<Rightarrow> job list \<Rightarrow> event list" where
  "run env [] [] = []"
| "run env [] (m # later) = run env [m] later"
| "run env (j # ready) later =
     fst (exec env j)
       @ run env (ready @ readyNow (snd (exec env j))) (later @ readyLater (snd (exec env j)))"
  by pat_completeness auto
termination
proof (relation "measure (\<lambda>(env, ready, later).
          sum_list (map weight ready) + sum_list (map (\<lambda>k. weight k + 1) later))")
  show "wf (measure (\<lambda>(env, ready, later).
          sum_list (map weight ready) + sum_list (map (\<lambda>k. weight k + 1) later)))"
    by simp
next
  fix env :: environment and m :: job and later :: "job list"
  show "((env, [m], later), (env, [], m # later))
          \<in> measure (\<lambda>(env, ready, later).
                sum_list (map weight ready) + sum_list (map (\<lambda>k. weight k + 1) later))"
    by simp
next
  fix env :: environment and j :: job and ready later :: "job list"
  have split: "sum_list (map weight (readyNow s)) + sum_list (map (\<lambda>k. weight k + 1) (readyLater s))
                 \<le> sum_list (map (\<lambda>(t, k). weight k + 1) s)" for s
    by (induction s) (auto simp: readyNow_def readyLater_def)
  have less: "sum_list (map (\<lambda>(t, k). weight k + 1) (snd (exec env j))) < weight j"
    by (cases j)
      (auto simp: rethrowInBackground_def
        split: outcome.splits settle_outcome.splits callback.splits)
  from split[of "snd (exec env j)"] less
  show "((env, ready @ readyNow (snd (exec env j)), later @ readyLater (snd (exec env j))),
         (env, j # ready, later))
          \<in> measure (\<lambda>(env, ready, later).
                sum_list (map weight ready) + sum_list (map (\<lambda>k. weight k + 1) later))"
    by simp
qed

declare run.simps [simp del]

text \<open>A call of \<open>pay\<close>, from the moment the authorization request is pending: the trace
  of the run.\<close>

definition pay :: "environment \<Rightarrow> event list" where
  "pay env = run env [] [PayAfterAuthorize]"

section \<open>Vocabulary of the statements\<close>

text \<open>The characters \<open>toString(16)\<close> can produce, and \<open>toUpperCase\<close> on ASCII
  letters, to speak about other renderings of a number.\<close>

definition isLowerHexDigit :: "char \<Rightarrow> bool" where
  "isLowerHexDigit c =
     (let u = (of_char c :: int) in (48 \<le> u \<and> u \<le> 57) \<or> (97 \<le> u \<and> u \<le> 102))"

definition toUpperCase_char :: "char \<Rightarrow> char" where
  "toUpperCase_char c =
     (let u = (of_char c :: int) in if 97 \<le> u \<and> u \<le> 122 then char_of (u - 32) else c)"

definition toUpperCase :: "string \<Rightarrow> string" where
  "toUpperCase s = map toUpperCase_char s"

text \<open>The string that \<open>ensureFieldElement(v, name).toString()\<close> yields on a value that
  is not negative.\<close>

definition reducedString :: "bigint \<Rightarrow> string" where
  "reducedString v = bigint_toString 10 (v mod BN254_FIELD_MODULUS)"

text \<open>An input record for the concrete statements: small hexadecimal fields, and the
  amount, the token and the maximal amount as given.\<close>

definition sampleInputs :: "bigint \<Rightarrow> string \<Rightarrow> bigint \<Rightarrow> ProofInputs" where
  "sampleInputs amt tok mx =
     \<lparr> senderCommitment = ''0x01'', senderSecret = ''02'', receiverCommitment = ''0x03'',
       amount = amt, tokenMint = tok, salt = ''0a'', merklePath = [''1'', ''2''],
       pathIndices = [Integral 0, Integral 1], encryptedC1 = ''0b'', encryptedC2 = ''0c'',
       elgamalRandomness = ''0x00'', shadowidRoot = ''0d'', maxAmount = mx,
       receiverElGamalPubkey = ''0e'' \<rparr>"

text \<open>The composition that the test script of the repository runs: generate a keypair,
  encrypt under its public key, decrypt with its private key.\<close>

definition encryptThenDecrypt :: "bigint \<Rightarrow> byte list \<Rightarrow> byte list \<Rightarrow> error + bigint" where
  "encryptThenDecrypt amt privateKeyBytes rBytes =
     bindE (generateElGamalKeypair privateKeyBytes) (\<lambda>keys.
     bindE (encryptAmount amt (publicKey keys) rBytes) (\<lambda>encrypted.
     decryptAmount encrypted (privateKey keys)))"

text \<open>Decimal digits, for the statements about rendered numbers.\<close>

definition isDecDigit :: "char \<Rightarrow> bool" where
  "isDecDigit c = (48 \<le> (of_char c :: int) \<and> (of_char c :: int) \<le> 57)"

text \<open>Hexadecimal digits of either case, and the number that a string of digits denotes
  in a radix.\<close>

definition isHexDigit :: "char \<Rightarrow> bool" where
  "isHexDigit c =
     (let u = (of_char c :: int)
      in (48 \<le> u \<and> u \<le> 57) \<or> (97 \<le> u \<and> u \<le> 102) \<or> (65 \<le> u \<and> u \<le> 70))"

definition charValue :: "char \<Rightarrow> int" where
  "charValue c = (case digitValue c of Some d \<Rightarrow> d | None \<Rightarrow> 0)"

definition digitsValue :: "int \<Rightarrow> string \<Rightarrow> int" where
  "digitsValue b ds = foldl (\<lambda>acc c. acc * b + charValue c) 0 ds"

text \<open>The characters that \<open>pubkeyToFieldElement\<close> reads: the value of its local
  \<open>truncated\<close>.\<close>

definition pubkeyWindow :: "string \<Rightarrow> string" where
  "pubkeyWindow pubkey = take 62 (if startsWith pubkey ''0x'' then drop 2 pubkey else pubkey)"

text \<open>The events by which the background task of \<open>pay\<close> ends or reports its end, and
  the events of its progress after its first \<open>await\<close>.\<close>

definition completionEvents :: "event list" where
  "completionEvents =
     [SettlementReceived, ResultMarkedSettled, HistorySaved, OnProofComplete,
      BackgroundFailureHandled]"

definition backgroundProgress :: "event list" where
  "backgroundProgress = [MerkleProofReceived, ProofGenerated, SettlementReceived]"

text \<open>Four runs of \<open>pay\<close> for the concrete statements.\<close>

definition allSucceedLater :: environment where
  "allSucceedLater =
     \<lparr> env_critical = Fulfils, env_keys = Fulfils,
       env_merkle = Fulfils, env_merkleTiming = LaterTurn,
       env_prove = Fulfils, env_proveTiming = LaterTurn,
       env_settle = SettleSuccess, env_settleTiming = LaterTurn,
       env_callback = CallbackReturns \<rparr>"

definition allSucceedAtOnce :: environment where
  "allSucceedAtOnce =
     \<lparr> env_critical = Fulfils, env_keys = Fulfils,
       env_merkle = Fulfils, env_merkleTiming = SameTurn,
       env_prove = Fulfils, env_proveTiming = SameTurn,
       env_settle = SettleSuccess, env_settleTiming = SameTurn,
       env_callback = CallbackThrows \<rparr>"

definition keysFail :: environment where
  "keysFail = allSucceedAtOnce \<lparr> env_keys := Rejects \<rparr>"

definition authorizationFails :: environment where
  "authorizationFails = allSucceedLater \<lparr> env_critical := Rejects \<rparr>"

section \<open>Properties\<close>

lemma shiftInByte_eq: "shiftInByte v b = v * 256 + uint b"
proof -
  have "\<not> bit (push_bit 8 v) n \<or> \<not> bit (uint b) n" for n
    by (auto simp add: bit_push_bit_iff bit_uint_iff)
  then have "push_bit 8 v + uint b = push_bit 8 v OR uint b"
    by (rule disjunctive_add)
  then show ?thesis
    by (simp add: shiftInByte_def push_bit_eq_mult)
qed

subsection \<open>Rendering and parsing are inverse\<close>

lemma digitValue_digitChar: "0 \<le> d \<Longrightarrow> d < 16 \<Longrightarrow> digitValue (digitChar d) = Some d"
proof -
  assume "0 \<le> d" "d < 16"
  then have "d \<in> {0,1,2,3,4,5,6,7,8,9,10,11,12,13,14,15}" by simp presburger
  then show ?thesis
    by (auto simp: digitValue_def digitChar_def)
qed

lemma parseDigits_append:
  "parseDigits b acc (xs @ ys) =
     (case parseDigits b acc xs of None \<Rightarrow> None | Some v \<Rightarrow> parseDigits b v ys)"
  by (induction xs arbitrary: acc) (auto split: option.splits)

lemma parseDigits_toRadix:
  "2 \<le> b \<Longrightarrow> b \<le> 16 \<Longrightarrow> 0 \<le> n \<Longrightarrow> parseDigits b 0 (toRadix b n) = Some n"
proof (induction b n rule: toRadix.induct)
  case (1 b n)
  show ?case
  proof (cases "n < b")
    case True
    with 1 show ?thesis
      by (subst toRadix.simps) (simp add: digitValue_digitChar)
  next
    case False
    with 1 have ih: "parseDigits b 0 (toRadix b (n div b)) = Some (n div b)"
      by (simp add: pos_imp_zdiv_nonneg_iff)
    have d: "digitValue (digitChar (n mod b)) = Some (n mod b)"
    proof (rule digitValue_digitChar)
      show "0 \<le> n mod b" using 1 by simp
      have "n mod b < b" using 1 by simp
      then show "n mod b < 16" using 1 by linarith
    qed
    from False 1 show ?thesis
      by (subst toRadix.simps) (simp add: parseDigits_append ih d)
  qed
qed


lemma digitChar_dec: "0 \<le> d \<Longrightarrow> d < 10 \<Longrightarrow> isDecDigit (digitChar d)"
proof -
  assume "0 \<le> d" "d < 10"
  then have "d \<in> {0,1,2,3,4,5,6,7,8,9}" by simp presburger
  then show ?thesis
    by (auto simp: isDecDigit_def digitChar_def)
qed

lemma toRadix_nonempty: "toRadix b n \<noteq> []"
  by (subst toRadix.simps) simp

lemma toRadix10_digits: "0 \<le> n \<Longrightarrow> list_all isDecDigit (toRadix 10 n)"
proof (induction "10::int" n rule: toRadix.induct)
  case (1 n)
  show ?case
  proof (cases "n < 10")
    case True
    with 1 show ?thesis
      by (subst toRadix.simps) (simp add: digitChar_dec)
  next
    case False
    with 1 have "list_all isDecDigit (toRadix 10 (n div 10))"
      by (simp add: pos_imp_zdiv_nonneg_iff)
    moreover have "isDecDigit (digitChar (n mod 10))"
      by (rule digitChar_dec) simp_all
    ultimately show ?thesis using False
      by (subst toRadix.simps) simp
  qed
qed

lemma trim_id: "s \<noteq> [] \<Longrightarrow> \<not> isWhiteSpace (hd s) \<Longrightarrow> \<not> isWhiteSpace (last s) \<Longrightarrow> trim s = s"
proof -
  assume a: "s \<noteq> []" "\<not> isWhiteSpace (hd s)" "\<not> isWhiteSpace (last s)"
  then have 1: "dropWhile isWhiteSpace s = s"
    by (cases s) simp_all
  from a have "rev s \<noteq> []" "\<not> isWhiteSpace (hd (rev s))"
    by (simp_all add: hd_rev)
  then have 2: "dropWhile isWhiteSpace (rev s) = rev s"
    by (cases "rev s") simp_all
  show ?thesis by (simp add: trim_def 1 2)
qed

lemma isDecDigit_not_ws: "isDecDigit c \<Longrightarrow> \<not> isWhiteSpace c"
  by (auto simp: isDecDigit_def isWhiteSpace_def Let_def)

lemma isDecDigit_not_letter: "isDecDigit c \<Longrightarrow> \<not> isHexLetter c"
  by (auto simp: isDecDigit_def isHexLetter_def Let_def)

lemma isDecDigit_neq:
  "isDecDigit c \<Longrightarrow> c \<noteq> CHR ''x'' \<and> c \<noteq> CHR ''X'' \<and> c \<noteq> CHR ''o'' \<and> c \<noteq> CHR ''O''
     \<and> c \<noteq> CHR ''b'' \<and> c \<noteq> CHR ''B'' \<and> c \<noteq> CHR ''-'' \<and> c \<noteq> CHR ''+''"
  by (auto simp: isDecDigit_def)

lemma literal_decimal:
  "s \<noteq> [] \<Longrightarrow> list_all isDecDigit s \<Longrightarrow> StringToBigInt_literal s = parseDigits 10 0 s"
proof (cases s rule: StringToBigInt_literal.cases)
  case 1
  assume "s \<noteq> []" then show ?thesis using 1 by simp
next
  case (2 c)
  then show ?thesis by (simp add: parseNonEmpty_def)
next
  case (3 c d ds)
  assume "list_all isDecDigit s"
  with 3 have "isDecDigit c" "isDecDigit d" by simp_all
  then show ?thesis using 3 isDecDigit_neq[of c] isDecDigit_neq[of d]
    by (simp add: parseNonEmpty_def)
qed

lemma StringToBigInt_decimal:
  assumes "0 \<le> n"
  shows "StringToBigInt (toRadix 10 n) = Some n"
proof -
  let ?s = "toRadix 10 n"
  have ne: "?s \<noteq> []" by (rule toRadix_nonempty)
  have dg: "list_all isDecDigit ?s" using assms by (rule toRadix10_digits)
  then have "isDecDigit (hd ?s)" "isDecDigit (last ?s)"
    using ne by (simp_all add: list_all_iff)
  then have "trim ?s = ?s"
    using ne by (intro trim_id) (simp_all add: isDecDigit_not_ws)
  then show ?thesis
    using ne dg assms by (simp add: StringToBigInt_def literal_decimal parseDigits_toRadix)
qed

lemma StringToBigInt_toString10: "StringToBigInt (bigint_toString 10 v) = Some v"
proof (cases "v < 0")
  case False
  then show ?thesis by (simp add: bigint_toString_def StringToBigInt_decimal)
next
  case True
  let ?s = "toRadix 10 (- v)"
  have ne: "?s \<noteq> []" by (rule toRadix_nonempty)
  have dg: "list_all isDecDigit ?s" using True by (intro toRadix10_digits) simp
  then have l: "isDecDigit (last ?s)" using ne by (simp add: list_all_iff)
  have m: "\<not> isWhiteSpace (CHR ''-'')" by (simp add: isWhiteSpace_def)
  have "\<not> isWhiteSpace (last ?s)" using l by (rule isDecDigit_not_ws)
  then have "trim (CHR ''-'' # ?s) = CHR ''-'' # ?s"
    using ne m by (intro trim_id) simp_all
  moreover obtain d ds where s: "?s = d # ds" using ne by (cases ?s) auto
  moreover have "parseDigits 10 0 ?s = Some (- v)"
    using True by (intro parseDigits_toRadix) simp_all
  ultimately show ?thesis using True
    by (simp add: bigint_toString_def StringToBigInt_def parseNonEmpty_def)
qed

subsection \<open>FieldCodec output is a field element\<close>

lemma fieldValueOfBytes_bounds:
  "0 \<le> fieldValueOfBytes bytes \<and> fieldValueOfBytes bytes < BN254_FIELD_MODULUS"
  by (simp add: fieldValueOfBytes_def Let_def BN254_FIELD_MODULUS_def)

text \<open>
  Claim C9. \<open>addressToFieldElement\<close> is a total, deterministic function on strings (it
  has no failing branch), and for every string, of any length, the decimal string it
  returns denotes a non-negative integer strictly below the BN254 scalar-field modulus:
  the string is the decimal rendering of such an integer, and \<open>BigInt\<close> reads that
  integer back from it. The bound does not depend on the encoder: the number computed
  from any sequence of bytes, of any length, lies in the field.
\<close>

theorem addressToFieldElement_in_field:
  "(\<exists>v. 0 \<le> v \<and> v < BN254_FIELD_MODULUS
        \<and> addressToFieldElement address = bigint_toString 10 v
        \<and> StringToBigInt (addressToFieldElement address) = Some v)
   \<and> (\<forall>bytes. 0 \<le> fieldValueOfBytes bytes \<and> fieldValueOfBytes bytes < BN254_FIELD_MODULUS)"
proof (intro conjI allI)
  let ?v = "addressToFieldValue address"
  have "0 \<le> ?v" "?v < BN254_FIELD_MODULUS"
    using fieldValueOfBytes_bounds[of "TextEncoder_encode address"]
    by (simp_all add: addressToFieldValue_def)
  moreover have "addressToFieldElement address = bigint_toString 10 ?v"
    by (simp add: addressToFieldElement_def)
  moreover have "StringToBigInt (addressToFieldElement address) = Some ?v"
    by (simp add: addressToFieldElement_def StringToBigInt_toString10)
  ultimately show "\<exists>v. 0 \<le> v \<and> v < BN254_FIELD_MODULUS
        \<and> addressToFieldElement address = bigint_toString 10 v
        \<and> StringToBigInt (addressToFieldElement address) = Some v"
    by blast
next
  fix bytes
  show "0 \<le> fieldValueOfBytes bytes" "fieldValueOfBytes bytes < BN254_FIELD_MODULUS"
    using fieldValueOfBytes_bounds[of bytes] by simp_all
qed

subsection \<open>\<open>toBigInt\<close> reads a decimal rendering back\<close>

lemma toString10_chars:
  "list_all (\<lambda>c. isDecDigit c \<or> c = CHR ''-'') (bigint_toString 10 v)"
proof (cases "v < 0")
  case True
  then have "list_all isDecDigit (toRadix 10 (- v))" by (intro toRadix10_digits) simp
  then show ?thesis using True by (simp add: bigint_toString_def list_all_iff)
next
  case False
  then have "list_all isDecDigit (toRadix 10 v)" by (intro toRadix10_digits) simp
  then show ?thesis using False by (simp add: bigint_toString_def list_all_iff)
qed

lemma toString10_nonempty: "bigint_toString 10 v \<noteq> []"
  by (simp add: bigint_toString_def toRadix_nonempty)

lemma not_startsWith_0x:
  assumes "list_all (\<lambda>c. isDecDigit c \<or> c = CHR ''-'') s"
  shows "\<not> startsWith s ''0x''"
proof
  assume "startsWith s ''0x''"
  then have "take (length ''0x'') s = ''0x''" by (simp only: startsWith_def)
  then have "CHR ''x'' \<in> set (take (length ''0x'') s)" by (simp only:) simp
  then have "CHR ''x'' \<in> set s" by (rule in_set_takeD)
  with assms have "isDecDigit (CHR ''x'') \<or> CHR ''x'' = CHR ''-''"
    unfolding list_all_iff by blast
  then show False by (simp add: isDecDigit_def)
qed

lemma not_hasHexLetter:
  assumes "list_all (\<lambda>c. isDecDigit c \<or> c = CHR ''-'') s"
  shows "\<not> hasHexLetter s"
proof -
  have "\<not> isHexLetter c" if "c \<in> set s" for c
  proof -
    from assms that have "isDecDigit c \<or> c = CHR ''-''" unfolding list_all_iff by blast
    then show ?thesis
      by (auto simp: isDecDigit_not_letter) (simp add: isHexLetter_def)
  qed
  then show ?thesis by (auto simp: hasHexLetter_def list_ex_iff)
qed

lemma BigInt_of_string_toString10: "BigInt_of_string (bigint_toString 10 v) = Inr v"
  by (simp add: BigInt_of_string_def StringToBigInt_toString10)

lemma toBigInt_toString10: "toBigInt (bigint_toString 10 v) = Inr v"
  using toString10_chars[of v]
  by (simp add: toBigInt_def toString10_nonempty not_startsWith_0x not_hasHexLetter
      BigInt_of_string_toString10)

subsection \<open>The shape of a hexadecimal rendering\<close>

lemma digitChar_lower_hex: "isLowerHexDigit (digitChar d)"
  by (simp add: digitChar_def isLowerHexDigit_def Let_def)

lemma toRadix_lower_hex: "list_all isLowerHexDigit (toRadix b n)"
proof (induction b n rule: toRadix.induct)
  case (1 b n)
  show ?case
  proof (cases "n < b \<or> b < 2")
    case True
    then show ?thesis
      by (subst toRadix.simps) (simp add: digitChar_lower_hex)
  next
    case False
    with 1 have "list_all isLowerHexDigit (toRadix b (n div b))" by simp
    then show ?thesis using False
      by (subst toRadix.simps) (simp add: digitChar_lower_hex)
  qed
qed




lemma length_toRadix_1: "2 \<le> b \<Longrightarrow> 0 \<le> n \<Longrightarrow> (length (toRadix b n) = 1) = (n < b)"
proof -
  assume b: "2 \<le> b" and n: "0 \<le> n"
  show ?thesis
  proof (cases "n < b")
    case True
    then show ?thesis by (subst toRadix.simps) simp
  next
    case False
    show ?thesis using False b
      by (subst toRadix.simps) (simp add: toRadix_nonempty)
  qed
qed

lemma digitChar_inj:
  assumes "0 \<le> d" "d < 16" "0 \<le> e" "e < 16" "digitChar d = digitChar e"
  shows "d = e"
proof -
  have "Some d = digitValue (digitChar d)"
    using assms(1,2) by (simp add: digitValue_digitChar)
  also have "\<dots> = digitValue (digitChar e)"
    by (simp only: assms(5))
  also have "\<dots> = Some e"
    using assms(3,4) by (simp add: digitValue_digitChar)
  finally show ?thesis by simp
qed

text \<open>The same digit string read in base 10 denotes less than in base 16, as soon as
  it has two digits.\<close>

lemma decimal_vs_hex:
  "0 \<le> x \<Longrightarrow> 0 \<le> y \<Longrightarrow> toRadix 10 x = toRadix 16 y \<Longrightarrow> (x < 10 \<and> y = x) \<or> x < y"
proof (induction "10::int" x arbitrary: y rule: toRadix.induct)
  case (1 x)
  have len: "length (toRadix 16 y) = length (toRadix 10 x)"
    by (simp only: "1.prems"(3))
  show ?case
  proof (cases "x < 10")
    case True
    then have sx: "toRadix 10 x = [digitChar x]" by (subst toRadix.simps) simp
    from len have "length (toRadix 16 y) = 1" by (simp only: sx) simp
    with "1.prems"(2) length_toRadix_1[of 16 y] have y16: "y < 16" by simp
    then have sy: "toRadix 16 y = [digitChar y]" by (subst toRadix.simps) simp
    have "[digitChar x] = [digitChar y]"
      using "1.prems"(3) by (simp only: sx sy)
    then have "digitChar x = digitChar y" by simp
    with True y16 "1.prems"(1,2) have "x = y" by (intro digitChar_inj) simp_all
    with True show ?thesis by simp
  next
    case False
    then have sx: "toRadix 10 x = toRadix 10 (x div 10) @ [digitChar (x mod 10)]"
      by (subst toRadix.simps) simp
    have "length (toRadix 10 x) \<noteq> 1"
      using False "1.prems"(1) length_toRadix_1[of 10 x] by simp
    with len have "length (toRadix 16 y) \<noteq> 1" by simp
    with "1.prems"(2) length_toRadix_1[of 16 y] have y16: "\<not> y < 16" by simp
    then have sy: "toRadix 16 y = toRadix 16 (y div 16) @ [digitChar (y mod 16)]"
      by (subst toRadix.simps) simp
    have "toRadix 10 (x div 10) @ [digitChar (x mod 10)]
            = toRadix 16 (y div 16) @ [digitChar (y mod 16)]"
      using "1.prems"(3) by (simp only: sx sy)
    then have eq: "toRadix 10 (x div 10) = toRadix 16 (y div 16)"
      and dg: "digitChar (x mod 10) = digitChar (y mod 16)" by simp_all
    have md: "x mod 10 = y mod 16"
      using dg by (intro digitChar_inj) simp_all
    have x10: "0 \<le> x div 10" "1 \<le> x div 10" using False by simp_all
    have y16': "0 \<le> y div 16" using "1.prems"(2) by simp
    have "\<not> (x < 10 \<or> (10::int) < 2)" using False by simp
    from "1.hyps"[OF this x10(1) y16' eq]
    have ih: "x div 10 \<le> y div 16" by linarith
    have "x = 10 * (x div 10) + x mod 10" "y = 16 * (y div 16) + y mod 16" by simp_all
    with md ih x10(2) have "x < y" by linarith
    then show ?thesis by simp
  qed
qed

lemma decimal_neq_hex:
  assumes "10 \<le> h"
  shows "bigint_toString 10 h \<noteq> bigint_toString 16 h"
proof
  assume "bigint_toString 10 h = bigint_toString 16 h"
  with assms have "toRadix 10 h = toRadix 16 h" by (simp add: bigint_toString_def)
  with assms decimal_vs_hex[of h h] show False by simp
qed

lemma toUpperCase_char_letter:
  assumes "isLowerHexDigit c" "isHexLetter c"
  shows "toUpperCase_char c \<noteq> c"
proof
  assume eq: "toUpperCase_char c = c"
  let ?u = "of_char c :: int"
  from assms have u: "97 \<le> ?u" "?u \<le> 102"
    by (auto simp: isLowerHexDigit_def isHexLetter_def Let_def)
  then have "toUpperCase_char c = char_of (?u - 32)"
    by (simp add: toUpperCase_char_def Let_def)
  with eq have "of_char (char_of (?u - 32) :: char) = ?u" by simp
  then have "(?u - 32) mod 256 = ?u" by (simp only: of_char_of)
  with u show False by simp
qed

lemma toUpperCase_neq:
  assumes "hasHexLetter (bigint_toString 16 h)"
  shows "toUpperCase (bigint_toString 16 h) \<noteq> bigint_toString 16 h"
proof
  let ?s = "bigint_toString 16 h"
  assume eq: "toUpperCase ?s = ?s"
  from assms obtain c where c: "c \<in> set ?s" "isHexLetter c"
    by (auto simp: hasHexLetter_def list_ex_iff)
  have "c \<noteq> CHR ''-''" using c(2) by (auto simp: isHexLetter_def)
  with c(1) have "c \<in> set (toRadix 16 (- h)) \<or> c \<in> set (toRadix 16 h)"
    by (auto simp: bigint_toString_def split: if_splits)
  then have "isLowerHexDigit c"
    using toRadix_lower_hex[of 16 "- h"] toRadix_lower_hex[of 16 h]
    unfolding list_all_iff by blast
  then have "toUpperCase_char c \<noteq> c"
    using c(2) by (rule toUpperCase_char_letter)
  moreover have "map toUpperCase_char ?s = map (\<lambda>x. x) ?s"
    using eq by (simp add: toUpperCase_def)
  then have "toUpperCase_char c = c"
    using c(1) by (simp only: map_eq_conv)
  ultimately show False by simp
qed

subsection \<open>Commitments and nullifiers through their hash inputs\<close>

lemma generateCommitment_via_inputs:
  "generateCommitment H rnd a r t nonce =
     bindE (commitmentInputs a r t (nonceOrRandom nonce rnd)) (\<lambda>xs.
       Inr \<lparr> pc_value = bigint_toString 16 (H xs), pc_amount = a, pc_recipient = r,
             pc_token = t, pc_nonce = nonceOrRandom nonce rnd \<rparr>)"
  by (simp add: generateCommitment_def commitmentInputs_def bindE_def Let_def
      split: sum.splits)

lemma verifyCommitment_via_inputs:
  "commitmentInputs a r t (nonceOrRandom (Some n) rnd) = Inr xs \<Longrightarrow>
     verifyCommitment H rnd cand a r t n = Inr (cand = bigint_toString 16 (H xs))"
  by (auto simp add: verifyCommitment_def generateCommitment_via_inputs bindE_def)

lemma generateNullifier_via_inputs:
  "generateNullifier H k c i =
     bindE (nullifierInputs k c i) (\<lambda>ys.
       Inr \<lparr> nf_value = bigint_toString 16 (H ys), nf_userSecret = k, nf_commitment = c,
             nf_index = i \<rparr>)"
  by (simp add: generateNullifier_def nullifierInputs_def bindE_def split: sum.splits)

lemma verifyNullifier_via_inputs:
  "nullifierInputs k c i = Inr ys \<Longrightarrow>
     verifyNullifier H cand k c i = Inr (cand = bigint_toString 16 (H ys))"
  by (auto simp add: verifyNullifier_def generateNullifier_via_inputs bindE_def)

lemma other_renderings_differ:
  "''0x'' @ bigint_toString 16 h \<noteq> bigint_toString 16 h"
  "replicate (Suc k) (CHR ''0'') @ bigint_toString 16 h \<noteq> bigint_toString 16 h"
proof -
  show "''0x'' @ bigint_toString 16 h \<noteq> bigint_toString 16 h" by simp
  have "length (replicate (Suc k) (CHR ''0'') @ bigint_toString 16 h)
          \<noteq> length (bigint_toString 16 h)" by simp
  then show "replicate (Suc k) (CHR ''0'') @ bigint_toString 16 h \<noteq> bigint_toString 16 h"
    by metis
qed

subsection \<open>Verification compares strings\<close>

text \<open>
  Claim C10. \<open>verifyCommitment\<close> and \<open>verifyNullifier\<close> return true exactly when the
  candidate string is, character for character, \<open>toString(16)\<close> of the recomputed hash
  \<open>H xs\<close>. A candidate that denotes the same number in another way is refused: with
  a \<open>0x\<close> prefix, with leading zeros, in uppercase (when the rendering has a letter),
  or in decimal (when the number is at least 10, below which the two renderings are
  the same string).
\<close>

theorem verification_is_exact_string_equality:
  assumes "commitmentInputs a r t (nonceOrRandom (Some n) rnd) = Inr xs"
    and "nullifierInputs k c i = Inr ys"
  shows "(\<forall>cand. verifyCommitment H rnd cand a r t n = Inr (cand = bigint_toString 16 (H xs)))
       \<and> verifyCommitment H rnd (''0x'' @ bigint_toString 16 (H xs)) a r t n = Inr False
       \<and> verifyCommitment H rnd (replicate (Suc j) (CHR ''0'') @ bigint_toString 16 (H xs)) a r t n
           = Inr False
       \<and> (hasHexLetter (bigint_toString 16 (H xs)) \<longrightarrow>
            verifyCommitment H rnd (toUpperCase (bigint_toString 16 (H xs))) a r t n = Inr False)
       \<and> (10 \<le> H xs \<longrightarrow>
            verifyCommitment H rnd (bigint_toString 10 (H xs)) a r t n = Inr False)
       \<and> (\<forall>cand. verifyNullifier H cand k c i = Inr (cand = bigint_toString 16 (H ys)))
       \<and> verifyNullifier H (''0x'' @ bigint_toString 16 (H ys)) k c i = Inr False
       \<and> verifyNullifier H (replicate (Suc j) (CHR ''0'') @ bigint_toString 16 (H ys)) k c i
           = Inr False
       \<and> (hasHexLetter (bigint_toString 16 (H ys)) \<longrightarrow>
            verifyNullifier H (toUpperCase (bigint_toString 16 (H ys))) k c i = Inr False)
       \<and> (10 \<le> H ys \<longrightarrow>
            verifyNullifier H (bigint_toString 10 (H ys)) k c i = Inr False)"
proof -
  note vc = verifyCommitment_via_inputs[OF assms(1), of H]
  note vn = verifyNullifier_via_inputs[OF assms(2), of H]
  show ?thesis
  proof (intro conjI allI impI)
    fix cand
    show "verifyCommitment H rnd cand a r t n = Inr (cand = bigint_toString 16 (H xs))"
      by (rule vc)
    show "verifyNullifier H cand k c i = Inr (cand = bigint_toString 16 (H ys))"
      by (rule vn)
  next
    show "verifyCommitment H rnd (''0x'' @ bigint_toString 16 (H xs)) a r t n = Inr False"
      by (simp only: vc other_renderings_differ)
    show "verifyCommitment H rnd (replicate (Suc j) (CHR ''0'') @ bigint_toString 16 (H xs)) a r t n
           = Inr False"
      by (simp only: vc other_renderings_differ)
    show "verifyNullifier H (''0x'' @ bigint_toString 16 (H ys)) k c i = Inr False"
      by (simp only: vn other_renderings_differ)
    show "verifyNullifier H (replicate (Suc j) (CHR ''0'') @ bigint_toString 16 (H ys)) k c i
           = Inr False"
      by (simp only: vn other_renderings_differ)
  next
    assume "hasHexLetter (bigint_toString 16 (H xs))"
    then show "verifyCommitment H rnd (toUpperCase (bigint_toString 16 (H xs))) a r t n = Inr False"
      by (simp add: vc toUpperCase_neq)
  next
    assume "hasHexLetter (bigint_toString 16 (H ys))"
    then show "verifyNullifier H (toUpperCase (bigint_toString 16 (H ys))) k c i = Inr False"
      by (simp add: vn toUpperCase_neq)
  next
    assume "10 \<le> H xs"
    then show "verifyCommitment H rnd (bigint_toString 10 (H xs)) a r t n = Inr False"
      by (simp add: vc decimal_neq_hex)
  next
    assume "10 \<le> H ys"
    then show "verifyNullifier H (bigint_toString 10 (H ys)) k c i = Inr False"
      by (simp add: vn decimal_neq_hex)
  qed
qed

theorem verification_is_exact_string_equality_witness:
  "commitmentInputs (Integral 1) ''a'' ''b'' (nonceOrRandom (Some ''3b'') []) = Inr [1, 97, 98, 59]
   \<and> nullifierInputs ''0a'' ''ff'' (Integral 2) = Inr [10, 255, 2]
   \<and> verifyCommitment sum_list [] ''ff'' (Integral 1) ''a'' ''b'' ''3b'' = Inr True
   \<and> verifyCommitment sum_list [] ''0xff'' (Integral 1) ''a'' ''b'' ''3b'' = Inr False
   \<and> verifyCommitment sum_list [] ''0ff'' (Integral 1) ''a'' ''b'' ''3b'' = Inr False
   \<and> verifyCommitment sum_list [] ''FF'' (Integral 1) ''a'' ''b'' ''3b'' = Inr False
   \<and> verifyCommitment sum_list [] ''255'' (Integral 1) ''a'' ''b'' ''3b'' = Inr False
   \<and> verifyNullifier sum_list ''10b'' ''0a'' ''ff'' (Integral 2) = Inr True
   \<and> verifyNullifier sum_list ''0x10b'' ''0a'' ''ff'' (Integral 2) = Inr False
   \<and> verifyNullifier sum_list ''010b'' ''0a'' ''ff'' (Integral 2) = Inr False
   \<and> verifyNullifier sum_list ''10B'' ''0a'' ''ff'' (Integral 2) = Inr False
   \<and> verifyNullifier sum_list ''267'' ''0a'' ''ff'' (Integral 2) = Inr False"
proof -
  have h1: "commitmentInputs (Integral 1) ''a'' ''b'' (nonceOrRandom (Some ''3b'') [])
              = Inr [1, 97, 98, 59]"
    by code_simp
  have h2: "nullifierInputs ''0a'' ''ff'' (Integral 2) = Inr [10, 255, 2]"
    by code_simp
  have e: "bigint_toString 16 255 = ''ff''" "bigint_toString 10 255 = ''255''"
    "bigint_toString 16 267 = ''10b''" "bigint_toString 10 267 = ''267''"
    "toUpperCase ''ff'' = ''FF''" "toUpperCase ''10b'' = ''10B''"
    "hasHexLetter ''ff''" "hasHexLetter ''10b''"
    by code_simp+
  from verification_is_exact_string_equality[OF h1 h2, of sum_list 0]
  show ?thesis using h1 h2 by (simp add: e)
qed

subsection \<open>The Commitment Engine does not check the field range\<close>

text \<open>
  Claim C5, as amended. The hash derivations make no range check. For every integral
  amount, of any sign and size, and all strings, \<open>generateCommitment\<close> fails only when
  the nonce is not a hexadecimal literal, and otherwise hashes the amount, the bytes of
  the recipient, the bytes of the token and the nonce as they are. In the same way
  \<open>computePaymentCommitment\<close> fails only when \<open>toBigInt\<close> fails on one of its strings,
  and otherwise hashes the converted values and the amount as they are; only the token
  is reduced, inside \<open>addressToFieldElement\<close>.
\<close>

theorem commitment_engine_checks_no_range:
  "generateCommitment H rnd (Integral v) r t nonce =
     (case StringToBigInt (''0x'' @ nonceOrRandom nonce rnd) of
        None \<Rightarrow>
          Inl (SyntaxError (''Cannot convert '' @ ''0x'' @ nonceOrRandom nonce rnd @ '' to a BigInt''))
      | Some nb \<Rightarrow>
          Inr \<lparr> pc_value = bigint_toString 16 (H [v, stringToBigInt r, stringToBigInt t, nb]),
                pc_amount = Integral v, pc_recipient = r, pc_token = t,
                pc_nonce = nonceOrRandom nonce rnd \<rparr>)
   \<and> computePaymentCommitment H sender receiver amt token saltHex =
       bindE (toBigInt sender) (\<lambda>sc.
       bindE (toBigInt receiver) (\<lambda>rc.
       bindE (toBigInt saltHex) (\<lambda>sl.
       Inr (bigint_toString 10 (H [sc, rc, amt, addressToFieldValue token, sl])))))"
proof
  show "generateCommitment H rnd (Integral v) r t nonce =
     (case StringToBigInt (''0x'' @ nonceOrRandom nonce rnd) of
        None \<Rightarrow>
          Inl (SyntaxError (''Cannot convert '' @ ''0x'' @ nonceOrRandom nonce rnd @ '' to a BigInt''))
      | Some nb \<Rightarrow>
          Inr \<lparr> pc_value = bigint_toString 16 (H [v, stringToBigInt r, stringToBigInt t, nb]),
                pc_amount = Integral v, pc_recipient = r, pc_token = t,
                pc_nonce = nonceOrRandom nonce rnd \<rparr>)"
    by (simp add: generateCommitment_def BigInt_of_number_def BigInt_of_string_def bindE_def
        Let_def split: option.splits)
  have enc: "toBigInt (addressToFieldElement token) = Inr (addressToFieldValue token)"
    by (simp add: addressToFieldElement_def toBigInt_toString10)
  show "computePaymentCommitment H sender receiver amt token saltHex =
       bindE (toBigInt sender) (\<lambda>sc.
       bindE (toBigInt receiver) (\<lambda>rc.
       bindE (toBigInt saltHex) (\<lambda>sl.
       Inr (bigint_toString 10 (H [sc, rc, amt, addressToFieldValue token, sl])))))"
    by (simp add: computePaymentCommitment_def enc bindE_def Let_def split: sum.splits)
qed

text \<open>
  The claim as stated fails. With the amount \<open>-1\<close> and the 43-character address of
  the wrapped SOL mint as recipient, \<open>generateCommitment\<close> raises nothing and hashes a
  negative first input and a second input above the modulus; with the modulus itself
  as amount, \<open>computePaymentCommitment\<close> raises nothing and hashes it unreduced.
\<close>

theorem commitment_engine_hashes_out_of_field_values:
  "commitmentInputs (Integral (- 1)) ''So11111111111111111111111111111111111111112'' ''SOL'' ''ab''
     = Inr [- 1,
            11679477131469415734525219995299484140004294611065083820550964343381187789922868340366321106759512568114,
            5459788, 171]
   \<and> BN254_FIELD_MODULUS \<le>
       11679477131469415734525219995299484140004294611065083820550964343381187789922868340366321106759512568114
   \<and> (\<forall>H rnd. \<exists>cm.
         generateCommitment H rnd (Integral (- 1))
           ''So11111111111111111111111111111111111111112'' ''SOL'' (Some ''ab'') = Inr cm
         \<and> pc_value cm =
             bigint_toString 16
               (H [- 1,
                   11679477131469415734525219995299484140004294611065083820550964343381187789922868340366321106759512568114,
                   5459788, 171]))
   \<and> (\<forall>H. computePaymentCommitment H ''1'' ''2'' BN254_FIELD_MODULUS ''SOL'' ''3''
           = Inr (bigint_toString 10 (H [1, 2, BN254_FIELD_MODULUS, 5459788, 3])))"
proof (intro conjI allI)
  show i: "commitmentInputs (Integral (- 1)) ''So11111111111111111111111111111111111111112'' ''SOL'' ''ab''
     = Inr [- 1,
            11679477131469415734525219995299484140004294611065083820550964343381187789922868340366321106759512568114,
            5459788, 171]"
    by code_simp
  show "BN254_FIELD_MODULUS \<le>
       11679477131469415734525219995299484140004294611065083820550964343381187789922868340366321106759512568114"
    by (simp add: BN254_FIELD_MODULUS_def)
  fix H :: poseidon
  have nr: "nonceOrRandom (Some ''ab'') r = ''ab''" for r
    by (simp add: nonceOrRandom_def)
  show "\<exists>cm.
         generateCommitment H rnd (Integral (- 1))
           ''So11111111111111111111111111111111111111112'' ''SOL'' (Some ''ab'') = Inr cm
         \<and> pc_value cm =
             bigint_toString 16
               (H [- 1,
                   11679477131469415734525219995299484140004294611065083820550964343381187789922868340366321106759512568114,
                   5459788, 171])" for rnd
    by (simp add: generateCommitment_via_inputs nr i bindE_def)
  have c: "toBigInt ''1'' = Inr 1" "toBigInt ''2'' = Inr 2" "toBigInt ''3'' = Inr 3"
    "addressToFieldValue ''SOL'' = 5459788"
    by code_simp+
  have enc: "toBigInt (addressToFieldElement ''SOL'') = Inr (addressToFieldValue ''SOL'')"
    by (simp add: addressToFieldElement_def toBigInt_toString10)
  show "computePaymentCommitment H ''1'' ''2'' BN254_FIELD_MODULUS ''SOL'' ''3''
           = Inr (bigint_toString 10 (H [1, 2, BN254_FIELD_MODULUS, 5459788, 3]))"
    by (simp add: computePaymentCommitment_def enc c bindE_def)
qed

subsection \<open>Bytes written in hexadecimal and read back\<close>

lemma uint_byte_bound: "uint (b :: byte) < 256"
  using uint_bounded[of b] by simp

lemma toRadix16_byte:
  assumes "0 \<le> n" "n < 256"
  shows "padStart 2 (CHR ''0'') (toRadix 16 n) = [digitChar (n div 16), digitChar (n mod 16)]"
proof (cases "n < 16")
  case True
  then have "toRadix 16 n = [digitChar n]" by (subst toRadix.simps) simp
  moreover have "n div 16 = 0" "n mod 16 = n" using True assms by simp_all
  ultimately show ?thesis by (simp add: padStart_def digitChar_def)
next
  case False
  have "n div 16 < 16" using assms by simp
  then have "toRadix 16 (n div 16) = [digitChar (n div 16)]" by (subst toRadix.simps) simp
  then have "toRadix 16 n = [digitChar (n div 16), digitChar (n mod 16)]"
    using False by (subst toRadix.simps) simp
  then show ?thesis by (simp add: padStart_def)
qed

lemma byteHex:
  "padStart 2 (CHR ''0'') (bigint_toString 16 (uint (b :: byte)))
     = [digitChar (uint b div 16), digitChar (uint b mod 16)]"
  using toRadix16_byte[of "uint b"] uint_byte_bound[of b]
  by (simp add: bigint_toString_def)

lemma bytesToHex_Nil: "bytesToHex [] = []"
  by (simp add: bytesToHex_def)

lemma bytesToHex_Cons:
  "bytesToHex (b # bs) = digitChar (uint b div 16) # digitChar (uint b mod 16) # bytesToHex bs"
  by (simp add: bytesToHex_def byteHex)

lemma take_bytesToHex: "take (2 * k) (bytesToHex bs) = bytesToHex (take k bs)"
proof (induction bs arbitrary: k)
  case Nil
  then show ?case by (simp add: bytesToHex_Nil)
next
  case (Cons b bs)
  show ?case
  proof (cases k)
    case 0
    then show ?thesis by (simp add: bytesToHex_Nil)
  next
    case (Suc j)
    then show ?thesis using Cons.IH[of j] by (simp add: bytesToHex_Cons)
  qed
qed

lemma parseDigits_bytesToHex:
  "parseDigits 16 acc (bytesToHex bs) = Some (foldl shiftInByte acc bs)"
proof (induction bs arbitrary: acc)
  case Nil
  then show ?case by (simp add: bytesToHex_Nil)
next
  case (Cons b bs)
  let ?n = "uint b"
  have "0 \<le> ?n div 16" by (simp add: pos_imp_zdiv_nonneg_iff)
  moreover have "?n div 16 < 16" using uint_byte_bound[of b] by simp
  ultimately have hi: "digitValue (digitChar (?n div 16)) = Some (?n div 16)"
    by (rule digitValue_digitChar)
  have lo: "digitValue (digitChar (?n mod 16)) = Some (?n mod 16)"
    by (intro digitValue_digitChar) simp_all
  have "(acc * 16 + ?n div 16) * 16 + ?n mod 16 = acc * 256 + ?n" by simp
  then have step: "(acc * 16 + ?n div 16) * 16 + ?n mod 16 = shiftInByte acc b"
    by (simp only: shiftInByte_eq)
  have lt: "?n div 16 < 16" "?n mod 16 < 16" using uint_byte_bound[of b] by simp_all
  have "parseDigits 16 acc (bytesToHex (b # bs))
          = parseDigits 16 ((acc * 16 + ?n div 16) * 16 + ?n mod 16) (bytesToHex bs)"
    unfolding bytesToHex_Cons parseDigits.simps hi lo option.case using lt by (simp only: if_True)
  also have "\<dots> = parseDigits 16 (shiftInByte acc b) (bytesToHex bs)"
    by (simp only: step)
  also have "\<dots> = Some (foldl shiftInByte (shiftInByte acc b) bs)"
    by (rule Cons.IH)
  finally show ?case by simp
qed

lemma bytesToHex_chars: "list_all isLowerHexDigit (bytesToHex bs)"
  by (induction bs) (simp_all add: bytesToHex_Nil bytesToHex_Cons digitChar_lower_hex)

lemma isLowerHexDigit_not_ws: "isLowerHexDigit c \<Longrightarrow> \<not> isWhiteSpace c"
  by (auto simp: isLowerHexDigit_def isWhiteSpace_def Let_def)

lemma foldl_shiftInByte_bounds:
  "0 \<le> acc \<Longrightarrow> 0 \<le> foldl shiftInByte acc bs
     \<and> foldl shiftInByte acc bs < (acc + 1) * 256 ^ length bs"
proof (induction bs arbitrary: acc)
  case Nil
  then show ?case by simp
next
  case (Cons b bs)
  have b: "0 \<le> uint b" "uint b < 256" using uint_byte_bound[of b] by simp_all
  have s: "shiftInByte acc b = acc * 256 + uint b" by (rule shiftInByte_eq)
  have nn: "0 \<le> shiftInByte acc b" using Cons.prems b by (simp add: s)
  from Cons.IH[OF nn]
  have ih: "0 \<le> foldl shiftInByte (shiftInByte acc b) bs"
    "foldl shiftInByte (shiftInByte acc b) bs < (shiftInByte acc b + 1) * 256 ^ length bs"
    by simp_all
  have "shiftInByte acc b + 1 \<le> (acc + 1) * 256" using b by (simp add: s)
  then have "(shiftInByte acc b + 1) * 256 ^ length bs \<le> ((acc + 1) * 256) * 256 ^ length bs"
    by (intro mult_right_mono) simp_all
  also have "\<dots> = (acc + 1) * 256 ^ length (b # bs)" by simp
  finally have "(shiftInByte acc b + 1) * 256 ^ length bs \<le> (acc + 1) * 256 ^ length (b # bs)" .
  with ih(2) have "foldl shiftInByte (shiftInByte acc b) bs < (acc + 1) * 256 ^ length (b # bs)"
    by (rule less_le_trans)
  with ih(1) show ?case by simp
qed

text \<open>A hexadecimal literal \<open>0x...\<close> without white space is read digit by digit.\<close>

lemma StringToBigInt_0x:
  assumes "ds \<noteq> []" "list_all isLowerHexDigit ds"
  shows "StringToBigInt (CHR ''0'' # CHR ''x'' # ds) = parseDigits 16 0 ds"
proof -
  have "isLowerHexDigit (last ds)" using assms by (simp add: list_all_iff)
  then have "\<not> isWhiteSpace (last ds)" by (rule isLowerHexDigit_not_ws)
  moreover have "\<not> isWhiteSpace (CHR ''0'')" by (simp add: isWhiteSpace_def)
  ultimately have "trim (CHR ''0'' # CHR ''x'' # ds) = CHR ''0'' # CHR ''x'' # ds"
    using assms(1) by (intro trim_id) simp_all
  then show ?thesis using assms(1)
    by (simp add: StringToBigInt_def parseNonEmpty_def)
qed

subsection \<open>The two identifier encodings\<close>

lemma TextEncoder_encode_nonempty: "s \<noteq> [] \<Longrightarrow> TextEncoder_encode s \<noteq> []"
  by (cases s) (simp_all add: TextEncoder_encode_def utf8_of_char_def Let_def)

lemma window_value_bounds:
  "0 \<le> foldl shiftInByte 0 (take 31 bs) \<and> foldl shiftInByte 0 (take 31 bs) < 2 ^ 248"
proof -
  let ?v = "foldl shiftInByte 0 (take 31 bs)"
  have b: "0 \<le> ?v" "?v < (0 + 1) * 256 ^ length (take 31 bs)"
    using foldl_shiftInByte_bounds[of 0 "take 31 bs"] by simp_all
  have "(256::int) ^ length (take 31 bs) \<le> 256 ^ 31"
    by (intro power_increasing) simp_all
  with b(2) have "?v < 256 ^ 31" by simp
  also have "(256::int) ^ 31 = 2 ^ 248" by simp
  finally show ?thesis using b(1) by simp
qed

lemma addressToFieldValue_window:
  "addressToFieldValue address = bytesToNumberBE (take 31 (TextEncoder_encode address))"
proof -
  let ?bs = "TextEncoder_encode address"
  have t: "take (min (length ?bs) 31) ?bs = take 31 ?bs"
    by (simp add: min_def)
  have "foldl shiftInByte 0 (take 31 ?bs) < BN254_FIELD_MODULUS"
    using window_value_bounds[of ?bs] by (simp add: BN254_FIELD_MODULUS_def)
  then show ?thesis
    using window_value_bounds[of ?bs]
    by (simp add: addressToFieldValue_def fieldValueOfBytes_def Let_def t bytesToNumberBE_def)
qed

subsection \<open>Proof-input assembly\<close>

lemma digitValue_nonneg: "digitValue c = Some d \<Longrightarrow> 0 \<le> d"
  by (auto simp: digitValue_def Let_def split: if_splits)

lemma parseDigits_nonneg:
  "parseDigits b acc ds = Some v \<Longrightarrow> 0 \<le> b \<Longrightarrow> 0 \<le> acc \<Longrightarrow> 0 \<le> v"
proof (induction ds arbitrary: acc)
  case Nil
  then show ?case by simp
next
  case (Cons c cs)
  from Cons.prems(1) obtain d where d: "digitValue c = Some d" "d < b"
    and r: "parseDigits b (acc * b + d) cs = Some v"
    by (auto split: option.splits if_splits)
  have "0 \<le> d" using d(1) by (rule digitValue_nonneg)
  with Cons.prems have "0 \<le> acc * b + d" by simp
  with Cons.IH[OF r Cons.prems(2)] show ?case .
qed

lemma trim_0x: "\<exists>s'. trim (CHR ''0'' # CHR ''x'' # s) = CHR ''0'' # CHR ''x'' # s'"
proof -
  have nw: "\<not> isWhiteSpace (CHR ''0'')" "\<not> isWhiteSpace (CHR ''x'')"
    by (simp_all add: isWhiteSpace_def)
  have 1: "dropWhile isWhiteSpace (CHR ''0'' # CHR ''x'' # s) = CHR ''0'' # CHR ''x'' # s"
    using nw by simp
  have 2: "dropWhile isWhiteSpace (rev s @ [CHR ''x'', CHR ''0''])
          = dropWhile isWhiteSpace (rev s) @ [CHR ''x'', CHR ''0'']"
    using nw by (simp add: dropWhile_append)
  have "trim (CHR ''0'' # CHR ''x'' # s)
          = rev (dropWhile isWhiteSpace (rev s @ [CHR ''x'', CHR ''0'']))"
    unfolding trim_def 1 by simp
  also have "\<dots> = CHR ''0'' # CHR ''x'' # rev (dropWhile isWhiteSpace (rev s))"
    unfolding 2 by simp
  finally show ?thesis by blast
qed

lemma hexToBigInt_nonneg:
  assumes "hexToBigInt hex = Inr v"
  shows "0 \<le> v"
proof -
  obtain s where s: "BigInt_of_string (CHR ''0'' # CHR ''x'' # s) = Inr v"
    using assms by (auto simp: hexToBigInt_def Let_def)
  obtain s' where t: "trim (CHR ''0'' # CHR ''x'' # s) = CHR ''0'' # CHR ''x'' # s'"
    using trim_0x by blast
  from s have "StringToBigInt (CHR ''0'' # CHR ''x'' # s) = Some v"
    by (auto simp: BigInt_of_string_def split: option.splits)
  then have "parseDigits 16 0 s' = Some v"
    by (auto simp: StringToBigInt_def t parseNonEmpty_def split: if_splits)
  then show ?thesis by (rule parseDigits_nonneg) simp_all
qed

lemma ensureFieldElement_nonneg:
  "0 \<le> v \<Longrightarrow> ensureFieldElement v name = Inr (v mod BN254_FIELD_MODULUS)"
  by (simp add: ensureFieldElement_def BN254_FIELD_MODULUS_def)

lemma ensureFieldElement_negative:
  "v < 0 \<Longrightarrow> ensureFieldElement v name
     = Inl (Error (name @ '' cannot be negative: '' @ bigint_toString 10 v))"
  by (simp add: ensureFieldElement_def BN254_FIELD_MODULUS_def)

lemma hexEntry_reduces:
  "hexToBigInt hex = Inr v \<Longrightarrow>
     hexEntry hex name = Inr (bigint_toString 10 (v mod BN254_FIELD_MODULUS))"
  using hexToBigInt_nonneg[of hex v]
  by (simp add: hexEntry_def bindE_def ensureFieldElement_nonneg)

lemma bigintEntry_reduces:
  "0 \<le> v \<Longrightarrow> bigintEntry v name = Inr (bigint_toString 10 (v mod BN254_FIELD_MODULUS))"
  by (simp add: bigintEntry_def bindE_def ensureFieldElement_nonneg)

lemma bigintEntry_negative:
  "v < 0 \<Longrightarrow> bigintEntry v name
     = Inl (Error (name @ '' cannot be negative: '' @ bigint_toString 10 v))"
  by (simp add: bigintEntry_def bindE_def ensureFieldElement_negative)

lemma check_reduced:
  "checkCircuitInputs ((key, Scalar (bigint_toString 10 (v mod BN254_FIELD_MODULUS))) # rest)
     = checkCircuitInputs rest"
proof -
  have "v mod BN254_FIELD_MODULUS < BN254_FIELD_MODULUS"
    by (simp add: BN254_FIELD_MODULUS_def)
  then show ?thesis
    by (simp add: bindE_def BigInt_of_string_toString10)
qed

text \<open>
  Claim C3, as amended. When the hexadecimal fields convert, proof-input assembly
  rejects nothing for being too large, except the token: every other scalar input
  \<open>v \<ge> p\<close> is reduced modulo \<open>p\<close> (after a console warning) and the reduced value is
  placed in the vector. An error naming the field is raised for a negative \<open>amount\<close>
  or \<open>max_amount\<close>, and for a \<open>token_mint\<close> that is at least \<open>p\<close>, which the final
  loop catches. \<open>generateProof\<close> hands the assembled vector to the prover and rethrows
  every error as a \<open>ProofGenerationError\<close>.
\<close>

theorem circuit_inputs_reduced_not_rejected:
  assumes "hexToBigInt (senderCommitment inputs) = Inr v1"
    and "hexToBigInt (senderSecret inputs) = Inr v2"
    and "hexToBigInt (receiverCommitment inputs) = Inr v3"
    and "hexToBigInt (salt inputs) = Inr v4"
    and "hexToBigInt (encryptedC1 inputs) = Inr v5"
    and "hexToBigInt (encryptedC2 inputs) = Inr v6"
    and "hexToBigInt (elgamalRandomness inputs) = Inr v7"
    and "hexToBigInt (shadowidRoot inputs) = Inr v8"
    and "hexToBigInt (receiverElGamalPubkey inputs) = Inr v9"
    and "tokenMintFieldElement (tokenMint inputs) = Inr tm"
    and "StringToBigInt tm = Some tv"
  shows "(0 \<le> amount inputs \<and> 0 \<le> maxAmount inputs \<and> tv < BN254_FIELD_MODULUS \<longrightarrow>
           assembleCircuitInputs inputs =
             Inr [(''sender_commitment'', Scalar (reducedString v1)),
                  (''sender_secret'', Scalar (reducedString v2)),
                  (''receiver_commitment'', Scalar (reducedString v3)),
                  (''amount'', Scalar (reducedString (amount inputs))),
                  (''token_mint'', Scalar tm),
                  (''salt'', Scalar (reducedString v4)),
                  (''merkle_path'', StringArray (merklePath inputs)),
                  (''path_indices'', NumberArray (pathIndices inputs)),
                  (''encrypted_amount_c1'', Scalar (reducedString v5)),
                  (''encrypted_amount_c2'', Scalar (reducedString v6)),
                  (''elgamal_randomness'', Scalar (reducedString v7)),
                  (''shadowid_root'', Scalar (reducedString v8)),
                  (''max_amount'', Scalar (reducedString (maxAmount inputs))),
                  (''receiver_elgamal_pubkey'', Scalar (reducedString v9))])
       \<and> (amount inputs < 0 \<longrightarrow>
           assembleCircuitInputs inputs =
             Inl (Error (''amount cannot be negative: '' @ bigint_toString 10 (amount inputs))))
       \<and> (0 \<le> amount inputs \<and> maxAmount inputs < 0 \<longrightarrow>
           assembleCircuitInputs inputs =
             Inl (Error (''max_amount cannot be negative: ''
                           @ bigint_toString 10 (maxAmount inputs))))
       \<and> (0 \<le> amount inputs \<and> 0 \<le> maxAmount inputs \<and> BN254_FIELD_MODULUS \<le> tv \<longrightarrow>
           assembleCircuitInputs inputs =
             Inl (Error ''Circuit input \"token_mint\" exceeds BN254 field modulus''))
       \<and> generateProof fullProve inputs =
           (case assembleCircuitInputs inputs of
              Inl e \<Rightarrow> Inl (ProofGenerationError (''Failed to generate ZK proof: '' @ message e))
            | Inr ci \<Rightarrow>
                (case fullProve ci of
                   Inl e \<Rightarrow>
                     Inl (ProofGenerationError (''Failed to generate ZK proof: '' @ message e))
                 | Inr r \<Rightarrow> Inr r))"
proof -
  note entries = assms(1-9)[THEN hexEntry_reduces] assms(10)
  have tok: "BigInt_of_string tm = Inr tv"
    using assms(11) by (simp add: BigInt_of_string_def)
  have chk: "checkCircuitInputs ((key, Scalar (reducedString v)) # rest) = checkCircuitInputs rest"
    for key v rest
    unfolding reducedString_def by (rule check_reduced)
  have chk_tok: "checkCircuitInputs ((key, Scalar tm) # rest) =
      (if BN254_FIELD_MODULUS \<le> tv
       then Inl (Error (''Circuit input \"'' @ key @ ''\" exceeds BN254 field modulus''))
       else checkCircuitInputs rest)" for key rest
    by (simp add: tok bindE_def)
  have check_all:
    "checkCircuitInputs
       [(''sender_commitment'', Scalar (reducedString v1)),
        (''sender_secret'', Scalar (reducedString v2)),
        (''receiver_commitment'', Scalar (reducedString v3)),
        (''amount'', Scalar (reducedString (amount inputs))),
        (''token_mint'', Scalar tm),
        (''salt'', Scalar (reducedString v4)),
        (''merkle_path'', StringArray (merklePath inputs)),
        (''path_indices'', NumberArray (pathIndices inputs)),
        (''encrypted_amount_c1'', Scalar (reducedString v5)),
        (''encrypted_amount_c2'', Scalar (reducedString v6)),
        (''elgamal_randomness'', Scalar (reducedString v7)),
        (''shadowid_root'', Scalar (reducedString v8)),
        (''max_amount'', Scalar (reducedString (maxAmount inputs))),
        (''receiver_elgamal_pubkey'', Scalar (reducedString v9))]
     = (if BN254_FIELD_MODULUS \<le> tv
        then Inl (Error (''Circuit input \"'' @ ''token_mint'' @ ''\" exceeds BN254 field modulus''))
        else Inr ())"
    by (simp only: chk chk_tok checkCircuitInputs.simps(1,3,4))
  show ?thesis
  proof (intro conjI impI)
    assume "0 \<le> amount inputs \<and> 0 \<le> maxAmount inputs \<and> tv < BN254_FIELD_MODULUS"
    then show "assembleCircuitInputs inputs =
             Inr [(''sender_commitment'', Scalar (reducedString v1)),
                  (''sender_secret'', Scalar (reducedString v2)),
                  (''receiver_commitment'', Scalar (reducedString v3)),
                  (''amount'', Scalar (reducedString (amount inputs))),
                  (''token_mint'', Scalar tm),
                  (''salt'', Scalar (reducedString v4)),
                  (''merkle_path'', StringArray (merklePath inputs)),
                  (''path_indices'', NumberArray (pathIndices inputs)),
                  (''encrypted_amount_c1'', Scalar (reducedString v5)),
                  (''encrypted_amount_c2'', Scalar (reducedString v6)),
                  (''elgamal_randomness'', Scalar (reducedString v7)),
                  (''shadowid_root'', Scalar (reducedString v8)),
                  (''max_amount'', Scalar (reducedString (maxAmount inputs))),
                  (''receiver_elgamal_pubkey'', Scalar (reducedString v9))]"
      by (simp add: assembleCircuitInputs_def buildCircuitInputs_def entries
          bigintEntry_reduces bindE_def reducedString_def[symmetric] check_all
          del: checkCircuitInputs.simps)
  next
    assume "amount inputs < 0"
    then show "assembleCircuitInputs inputs =
             Inl (Error (''amount cannot be negative: '' @ bigint_toString 10 (amount inputs)))"
      by (simp add: assembleCircuitInputs_def buildCircuitInputs_def entries
          bigintEntry_negative bindE_def)
  next
    assume "0 \<le> amount inputs \<and> maxAmount inputs < 0"
    then show "assembleCircuitInputs inputs =
             Inl (Error (''max_amount cannot be negative: ''
                           @ bigint_toString 10 (maxAmount inputs)))"
      by (simp add: assembleCircuitInputs_def buildCircuitInputs_def entries
          bigintEntry_reduces bigintEntry_negative bindE_def)
  next
    assume "0 \<le> amount inputs \<and> 0 \<le> maxAmount inputs \<and> BN254_FIELD_MODULUS \<le> tv"
    then show "assembleCircuitInputs inputs =
             Inl (Error ''Circuit input \"token_mint\" exceeds BN254 field modulus'')"
      by (simp add: assembleCircuitInputs_def buildCircuitInputs_def entries
          bigintEntry_reduces bindE_def reducedString_def[symmetric] check_all
          del: checkCircuitInputs.simps)
  next
    show "generateProof fullProve inputs =
           (case assembleCircuitInputs inputs of
              Inl e \<Rightarrow> Inl (ProofGenerationError (''Failed to generate ZK proof: '' @ message e))
            | Inr ci \<Rightarrow>
                (case fullProve ci of
                   Inl e \<Rightarrow>
                     Inl (ProofGenerationError (''Failed to generate ZK proof: '' @ message e))
                 | Inr r \<Rightarrow> Inr r))"
      by (simp add: generateProof_def bindE_def split: sum.splits)
  qed
qed

theorem circuit_inputs_reduced_not_rejected_witness:
  "hexToBigInt (senderCommitment (sampleInputs (BN254_FIELD_MODULUS + 5) ''SOL'' 10)) = Inr 1
   \<and> tokenMintFieldElement (tokenMint (sampleInputs (BN254_FIELD_MODULUS + 5) ''SOL'' 10)) = Inr ''0''
   \<and> StringToBigInt ''0'' = Some 0
   \<and> assembleCircuitInputs (sampleInputs (BN254_FIELD_MODULUS + 5) ''SOL'' 10) =
       Inr [(''sender_commitment'', Scalar ''1''), (''sender_secret'', Scalar ''2''),
            (''receiver_commitment'', Scalar ''3''), (''amount'', Scalar ''5''),
            (''token_mint'', Scalar ''0''), (''salt'', Scalar ''10''),
            (''merkle_path'', StringArray [''1'', ''2'']),
            (''path_indices'', NumberArray [Integral 0, Integral 1]),
            (''encrypted_amount_c1'', Scalar ''11''), (''encrypted_amount_c2'', Scalar ''12''),
            (''elgamal_randomness'', Scalar ''0''), (''shadowid_root'', Scalar ''13''),
            (''max_amount'', Scalar ''10''), (''receiver_elgamal_pubkey'', Scalar ''14'')]
   \<and> assembleCircuitInputs (sampleInputs (- 5) ''SOL'' 10) =
       Inl (Error ''amount cannot be negative: -5'')
   \<and> generateProof (\<lambda>ci. Inl (Error ''prover'') :: error + unit GeneratedProof)
        (sampleInputs (- 5) ''SOL'' 10) =
       Inl (ProofGenerationError ''Failed to generate ZK proof: amount cannot be negative: -5'')
   \<and> assembleCircuitInputs (sampleInputs 5 ''SOL'' (- 1)) =
       Inl (Error ''max_amount cannot be negative: -1'')
   \<and> assembleCircuitInputs
        (sampleInputs 5 ''21888242871839275222246405745257275088548364400416034343698204186575808495617'' 10) =
       Inl (Error ''Circuit input \"token_mint\" exceeds BN254 field modulus'')"
proof -
  have h: "hexToBigInt (senderCommitment (sampleInputs a t m)) = Inr 1"
    "hexToBigInt (senderSecret (sampleInputs a t m)) = Inr 2"
    "hexToBigInt (receiverCommitment (sampleInputs a t m)) = Inr 3"
    "hexToBigInt (salt (sampleInputs a t m)) = Inr 10"
    "hexToBigInt (encryptedC1 (sampleInputs a t m)) = Inr 11"
    "hexToBigInt (encryptedC2 (sampleInputs a t m)) = Inr 12"
    "hexToBigInt (elgamalRandomness (sampleInputs a t m)) = Inr 0"
    "hexToBigInt (shadowidRoot (sampleInputs a t m)) = Inr 13"
    "hexToBigInt (receiverElGamalPubkey (sampleInputs a t m)) = Inr 14" for a t m
    unfolding sampleInputs_def by (simp_all only: ProofInputs.simps) code_simp+
  have t1: "tokenMintFieldElement (tokenMint (sampleInputs a ''SOL'' m)) = Inr ''0''" for a m
    unfolding sampleInputs_def by (simp only: ProofInputs.simps) code_simp
  have t2: "tokenMintFieldElement (tokenMint (sampleInputs a ''21888242871839275222246405745257275088548364400416034343698204186575808495617'' m)) = Inr ''21888242871839275222246405745257275088548364400416034343698204186575808495617''" for a m
    unfolding sampleInputs_def by (simp only: ProofInputs.simps) code_simp
  have p1: "StringToBigInt ''0'' = Some 0" by code_simp
  have p2: "StringToBigInt ''21888242871839275222246405745257275088548364400416034343698204186575808495617'' = Some BN254_FIELD_MODULUS"
    by code_simp
  have sel: "amount (sampleInputs a t m) = a" "maxAmount (sampleInputs a t m) = m"
    "merklePath (sampleInputs a t m) = [''1'', ''2'']"
    "pathIndices (sampleInputs a t m) = [Integral 0, Integral 1]" for a t m
    by (simp_all add: sampleInputs_def)
  have r: "reducedString 1 = ''1''" "reducedString 2 = ''2''" "reducedString 3 = ''3''"
    "reducedString (BN254_FIELD_MODULUS + 5) = ''5''" "reducedString 10 = ''10''"
    "reducedString 11 = ''11''" "reducedString 12 = ''12''" "reducedString 0 = ''0''"
    "reducedString 13 = ''13''" "reducedString 14 = ''14''"
    "bigint_toString 10 (- 5) = ''-5''" "bigint_toString 10 (- 1) = ''-1''"
    by code_simp+
  have big: "(0::int) \<le> BN254_FIELD_MODULUS + 5" "(0::int) < BN254_FIELD_MODULUS"
    by (simp_all add: BN254_FIELD_MODULUS_def)
  note inst = circuit_inputs_reduced_not_rejected[OF h,
      where fullProve = "\<lambda>ci. Inl (Error ''prover'') :: error + unit GeneratedProof"]
  from inst[OF t1 p1, of "BN254_FIELD_MODULUS + 5" 10]
       inst[OF t1 p1, of "- 5" 10]
       inst[OF t1 p1, of 5 "- 1"]
       inst[OF t2 p2, of 5 10]
  show ?thesis using big by (simp add: sel r h t1 p1)
qed

text \<open>
  The claim as stated fails: with an amount of \<open>p + 5\<close> and a sender secret of
  \<open>p + 1\<close>, nothing is raised; the vector holds \<open>5\<close> and \<open>1\<close>, and that vector is what
  \<open>generateProof\<close> hands to the prover.
\<close>

theorem circuit_input_above_modulus_is_reduced:
  "hexToBigInt ''0x30644e72e131a029b85045b68181585d2833e84879b9709143e1f593f0000002''
     = Inr (BN254_FIELD_MODULUS + 1)
   \<and> assembleCircuitInputs
        ((sampleInputs (BN254_FIELD_MODULUS + 5) ''SOL'' 10)
           \<lparr> senderSecret :=
               ''0x30644e72e131a029b85045b68181585d2833e84879b9709143e1f593f0000002'' \<rparr>) =
       Inr [(''sender_commitment'', Scalar ''1''), (''sender_secret'', Scalar ''1''),
            (''receiver_commitment'', Scalar ''3''), (''amount'', Scalar ''5''),
            (''token_mint'', Scalar ''0''), (''salt'', Scalar ''10''),
            (''merkle_path'', StringArray [''1'', ''2'']),
            (''path_indices'', NumberArray [Integral 0, Integral 1]),
            (''encrypted_amount_c1'', Scalar ''11''), (''encrypted_amount_c2'', Scalar ''12''),
            (''elgamal_randomness'', Scalar ''0''), (''shadowid_root'', Scalar ''13''),
            (''max_amount'', Scalar ''10''), (''receiver_elgamal_pubkey'', Scalar ''14'')]"
  by code_simp

subsection \<open>ElGamal: the search for the amount\<close>

lemma CURVE_n_gt_max: "maxAmount_search < CURVE_n"
  by (simp add: maxAmount_search_def CURVE_n_def)

lemma CURVE_n_pos: "0 < CURVE_n"
  by (simp add: CURVE_n_def)

lemma multiply_in_range:
  "1 \<le> s \<Longrightarrow> s < CURVE_n \<Longrightarrow> multiply P s = Inr ((P * s) mod CURVE_n)"
  by (simp add: multiply_def)

lemma multiply_out_of_range:
  "s < 1 \<or> CURVE_n \<le> s \<Longrightarrow> multiply P s = Inl (Error ''invalid scalar: out of range'')"
  by (auto simp add: multiply_def)

lemma multiply_BASE_candidate:
  "1 \<le> i \<Longrightarrow> i \<le> maxAmount_search \<Longrightarrow> multiply BASE i = Inr i"
  using CURVE_n_gt_max by (simp add: multiply_def BASE_def)

lemma recoverLoop_step:
  "1 \<le> i \<Longrightarrow> i \<le> maxAmount_search \<Longrightarrow>
     recoverLoop pt i = (if pt = i then Inr i else recoverLoop pt (i + 1))"
  by (subst recoverLoop.simps) (simp add: multiply_BASE_candidate equals_def)

lemma recoverLoop_end:
  "maxAmount_search < i \<Longrightarrow>
     recoverLoop pt i = Inl (Error ''Could not decrypt amount (too large or invalid)'')"
  by (subst recoverLoop.simps) simp

lemma recoverLoop_found:
  "1 \<le> i \<Longrightarrow> i \<le> pt \<Longrightarrow> pt \<le> maxAmount_search \<Longrightarrow> recoverLoop pt i = Inr pt"
proof (induction pt i rule: recoverLoop.induct)
  case (1 pt i)
  show ?case
  proof (cases "pt = i")
    case True
    with 1 show ?thesis by (simp add: recoverLoop_step)
  next
    case False
    with "1.prems" have lt: "i + 1 \<le> pt" by simp
    have le: "i \<le> maxAmount_search" using "1.prems" by simp
    have m: "multiply BASE i = Inr i" using "1.prems" le by (simp add: multiply_BASE_candidate)
    have ne: "\<not> equals pt i" using False by (simp add: equals_def)
    have "recoverLoop pt (i + 1) = Inr pt"
      using "1.IH"(2)[OF le m ne] "1.prems" lt by simp
    with False "1.prems" le show ?thesis by (simp add: recoverLoop_step)
  qed
qed

lemma recoverLoop_not_found:
  "1 \<le> i \<Longrightarrow> pt < i \<or> maxAmount_search < pt \<Longrightarrow>
     recoverLoop pt i = Inl (Error ''Could not decrypt amount (too large or invalid)'')"
proof (induction pt i rule: recoverLoop.induct)
  case (1 pt i)
  show ?case
  proof (cases "i \<le> maxAmount_search")
    case False
    then show ?thesis by (simp add: recoverLoop_end)
  next
    case True
    have m: "multiply BASE i = Inr i" using "1.prems" True by (simp add: multiply_BASE_candidate)
    have neq: "pt \<noteq> i" using "1.prems" True by auto
    then have ne: "\<not> equals pt i" by (simp add: equals_def)
    have "recoverLoop pt (i + 1) = Inl (Error ''Could not decrypt amount (too large or invalid)'')"
      using "1.IH"(2)[OF True m ne] "1.prems" by auto
    with neq "1.prems" True show ?thesis by (simp add: recoverLoop_step)
  qed
qed

lemma recoverAmountFromPoint_cases:
  assumes "0 \<le> pt"
  shows "recoverAmountFromPoint pt =
           (if pt \<le> maxAmount_search then Inr pt
            else Inl (Error ''Could not decrypt amount (too large or invalid)''))"
proof (cases "pt = 0")
  case True
  then show ?thesis
    by (simp add: recoverAmountFromPoint_def equals_def ZERO_def maxAmount_search_def)
next
  case False
  with assms have "1 \<le> pt" by simp
  then show ?thesis
    using False recoverLoop_found[of 1 pt] recoverLoop_not_found[of 1 pt]
    by (auto simp add: recoverAmountFromPoint_def equals_def ZERO_def)
qed

subsection \<open>ElGamal: the private key written in hexadecimal and read back\<close>

lemma parseDigits_leading_zeros:
  "parseDigits 16 0 (replicate k (CHR ''0'') @ s) = parseDigits 16 0 s"
proof (induction k)
  case 0
  then show ?case by simp
next
  case (Suc k)
  have "digitValue (CHR ''0'') = Some 0" by (simp add: digitValue_def)
  with Suc show ?case by simp
qed

lemma hexToNumber_numberToHex:
  assumes "0 \<le> num"
  shows "hexToNumber (numberToHex num) = Inr num"
proof -
  let ?s = "toRadix 16 num"
  let ?ds = "padStart 64 (CHR ''0'') ?s"
  have z: "isLowerHexDigit (CHR ''0'')" by (simp add: isLowerHexDigit_def)
  have ne: "?ds \<noteq> []" by (simp add: padStart_def toRadix_nonempty)
  have "list_all isLowerHexDigit ?s" by (rule toRadix_lower_hex)
  moreover have "list_all isLowerHexDigit (replicate k (CHR ''0''))" for k
    using z by (induction k) simp_all
  ultimately have dg: "list_all isLowerHexDigit ?ds"
    by (simp add: padStart_def)
  have "parseDigits 16 0 ?ds = parseDigits 16 0 ?s"
    by (simp add: padStart_def parseDigits_leading_zeros)
  also have "\<dots> = Some num"
    using assms by (simp add: parseDigits_toRadix)
  finally have "StringToBigInt (CHR ''0'' # CHR ''x'' # ?ds) = Some num"
    using StringToBigInt_0x[OF ne dg] by simp
  then show ?thesis
    using assms by (simp add: hexToNumber_def numberToHex_def bigint_toString_def
        BigInt_of_string_def)
qed

subsection \<open>ElGamal: key generation, encryption, decryption\<close>

lemma generateElGamalKeypair_Inr:
  assumes "generateElGamalKeypair privateKeyBytes = Inr keys"
  shows "\<exists>sk. 1 \<le> sk \<and> sk < CURVE_n \<and> sk = bytesToNumberBE privateKeyBytes mod CURVE_n
            \<and> privateKey keys = numberToHex sk \<and> publicKey keys = sk"
proof -
  let ?sk = "bytesToNumberBE privateKeyBytes mod CURVE_n"
  have r: "1 \<le> ?sk \<and> ?sk < CURVE_n"
    using assms
    by (auto simp add: generateElGamalKeypair_def Let_def bindE_def multiply_def
        split: if_splits)
  then have "multiply BASE ?sk = Inr ?sk"
    by (simp add: multiply_def BASE_def)
  with assms have "keys = \<lparr> privateKey = numberToHex ?sk, publicKey = ?sk \<rparr>"
    by (simp add: generateElGamalKeypair_def Let_def bindE_def)
  with r show ?thesis by simp
qed

lemma encryptAmount_in_range:
  assumes "1 \<le> a" "a < CURVE_n" "bytesToNumberBE rBytes mod CURVE_n \<noteq> 0"
  shows "encryptAmount a pk rBytes =
           Inr \<lparr> c1 = bytesToNumberBE rBytes mod CURVE_n,
                 c2 = (a + (pk * (bytesToNumberBE rBytes mod CURVE_n)) mod CURVE_n) mod CURVE_n \<rparr>"
proof -
  let ?r = "bytesToNumberBE rBytes mod CURVE_n"
  have "0 \<le> ?r" "?r < CURVE_n" using CURVE_n_pos by simp_all
  with assms(3) have r: "1 \<le> ?r" "?r < CURVE_n" by simp_all
  have a: "a mod CURVE_n = a" using assms by simp
  have r': "?r mod CURVE_n = ?r" by simp
  show ?thesis
    using r assms(1,2)
    by (simp add: encryptAmount_def Let_def bindE_def multiply_in_range BASE_def add_def a
        del: mod_mod_trivial)
qed

lemma encryptAmount_zero_draw:
  "bytesToNumberBE rBytes mod CURVE_n = 0 \<Longrightarrow>
     encryptAmount a pk rBytes = Inl (Error ''invalid scalar: out of range'')"
  by (simp add: encryptAmount_def Let_def bindE_def multiply_def)

lemma encryptAmount_bad_amount:
  "a < 1 \<or> CURVE_n \<le> a \<Longrightarrow>
     encryptAmount a pk rBytes = Inl (Error ''invalid scalar: out of range'')"
  by (auto simp add: encryptAmount_def Let_def bindE_def multiply_def)

lemma decrypt_encrypted:
  assumes "1 \<le> sk" "sk < CURVE_n" "0 \<le> a" "a < CURVE_n"
  shows "decryptAmount \<lparr> c1 = r, c2 = (a + (sk * r) mod CURVE_n) mod CURVE_n \<rparr> (numberToHex sk)
           = recoverAmountFromPoint a"
proof -
  have h: "hexToNumber (numberToHex sk) = Inr sk"
    using assms(1) by (intro hexToNumber_numberToHex) simp
  have "((a + (sk * r) mod CURVE_n) mod CURVE_n - (r * sk) mod CURVE_n) mod CURVE_n
          = (a + sk * r - r * sk) mod CURVE_n"
    by (simp add: mod_simps)
  also have "\<dots> = a" using assms(3,4) by (simp add: mult.commute)
  finally have m: "subtract ((a + (sk * r) mod CURVE_n) mod CURVE_n) ((r * sk) mod CURVE_n) = a"
    by (simp add: subtract_def)
  show ?thesis
    using assms(1,2)
    by (simp add: decryptAmount_def Let_def bindE_def h multiply_in_range m
        del: mod_mod_trivial)
qed

subsection \<open>ElGamal: decryption inverts encryption inside the search range\<close>

text \<open>
  Claim C1, as amended. For every amount \<open>a\<close> with \<open>1 \<le> a \<le> 10,000,000\<close>, every
  keypair that \<open>generateElGamalKeypair\<close> returns and every draw of the ephemeral bytes
  whose value is not a multiple of the group order, \<open>encryptAmount\<close> succeeds and
  \<open>decryptAmount\<close> of its result under the private key returns exactly \<open>a\<close>.
\<close>

theorem elgamal_roundtrip:
  assumes "1 \<le> a" and "a \<le> maxAmount_search"
    and "generateElGamalKeypair privateKeyBytes = Inr keys"
    and "bytesToNumberBE rBytes mod CURVE_n \<noteq> 0"
  shows "(\<exists>encrypted. encryptAmount a (publicKey keys) rBytes = Inr encrypted
            \<and> decryptAmount encrypted (privateKey keys) = Inr a)
       \<and> encryptThenDecrypt a privateKeyBytes rBytes = Inr a"
proof -
  from generateElGamalKeypair_Inr[OF assms(3)] obtain sk
    where sk: "1 \<le> sk" "sk < CURVE_n" "privateKey keys = numberToHex sk" "publicKey keys = sk"
    by blast
  have an: "a < CURVE_n" using assms(2) CURVE_n_gt_max by simp
  let ?r = "bytesToNumberBE rBytes mod CURVE_n"
  let ?ct = "\<lparr> c1 = ?r, c2 = (a + (sk * ?r) mod CURVE_n) mod CURVE_n \<rparr>"
  have e: "encryptAmount a (publicKey keys) rBytes = Inr ?ct"
    using encryptAmount_in_range[OF assms(1) an assms(4), of sk] by (simp add: sk(4))
  have "decryptAmount ?ct (privateKey keys) = recoverAmountFromPoint a"
    using decrypt_encrypted[OF sk(1,2) _ an, of ?r] assms(1) by (simp add: sk(3))
  also have "\<dots> = Inr a"
    using assms(1,2) by (simp add: recoverAmountFromPoint_cases)
  finally have d: "decryptAmount ?ct (privateKey keys) = Inr a" .
  from e d have "\<exists>encrypted. encryptAmount a (publicKey keys) rBytes = Inr encrypted
            \<and> decryptAmount encrypted (privateKey keys) = Inr a" by blast
  moreover have "encryptThenDecrypt a privateKeyBytes rBytes = Inr a"
    by (simp add: encryptThenDecrypt_def assms(3) e d bindE_def)
  ultimately show ?thesis by simp
qed

lemma sample_keypair:
  "generateElGamalKeypair (replicate 31 0 @ [7]) =
     Inr \<lparr> privateKey = ''0000000000000000000000000000000000000000000000000000000000000007'',
           publicKey = 7 \<rparr>"
  by code_simp

lemma sample_draws:
  "bytesToNumberBE (replicate 31 0 @ [3]) mod CURVE_n = 3"
  "bytesToNumberBE (replicate 32 0) mod CURVE_n = 0"
  by code_simp+

theorem elgamal_roundtrip_witness:
  "(1::int) \<le> 10000 \<and> 10000 \<le> maxAmount_search
   \<and> generateElGamalKeypair (replicate 31 0 @ [7]) =
       Inr \<lparr> privateKey = ''0000000000000000000000000000000000000000000000000000000000000007'',
             publicKey = 7 \<rparr>
   \<and> bytesToNumberBE (replicate 31 0 @ [3]) mod CURVE_n \<noteq> 0
   \<and> encryptThenDecrypt 10000 (replicate 31 0 @ [7]) (replicate 31 0 @ [3]) = Inr 10000"
proof -
  have a: "(1::int) \<le> 10000" "10000 \<le> maxAmount_search"
    by (simp_all add: maxAmount_search_def)
  have r: "bytesToNumberBE (replicate 31 0 @ [3]) mod CURVE_n \<noteq> 0"
    by (simp add: sample_draws)
  from elgamal_roundtrip[OF a sample_keypair r]
  show ?thesis using a r sample_keypair by simp
qed

text \<open>
  The claim as stated fails at the amount \<open>0\<close> and at a draw that is a multiple of the
  group order: the library refuses the scalar \<open>0\<close>, so \<open>encryptAmount\<close> throws in both
  cases and there is no ciphertext to decrypt.
\<close>

theorem elgamal_zero_amount_or_zero_draw_throws:
  "encryptThenDecrypt 0 (replicate 31 0 @ [7]) (replicate 31 0 @ [3])
     = Inl (Error ''invalid scalar: out of range'')
   \<and> encryptThenDecrypt 10000 (replicate 31 0 @ [7]) (replicate 32 0)
     = Inl (Error ''invalid scalar: out of range'')"
proof -
  have "encryptAmount 0 7 (replicate 31 0 @ [3]) = Inl (Error ''invalid scalar: out of range'')"
    by (rule encryptAmount_bad_amount) simp
  moreover
  have "encryptAmount 10000 7 (replicate 32 0) = Inl (Error ''invalid scalar: out of range'')"
    by (rule encryptAmount_zero_draw) (simp only: sample_draws)
  ultimately show ?thesis
    by (simp add: encryptThenDecrypt_def sample_keypair bindE_def)
qed

subsection \<open>ElGamal: amounts above the search range\<close>

text \<open>
  Claim C2, as amended. For every amount above 10,000,000 and every keypair, encrypting
  and then decrypting never returns a value. When the amount is below the group order
  and the draw is not a multiple of it, encryption succeeds and \<open>decryptAmount\<close> throws
  the plain \<open>Error\<close> with the message "Could not decrypt amount (too large or invalid)";
  when the amount is at least the group order, or the draw is a multiple of it,
  \<open>encryptAmount\<close> itself throws the library's error for an invalid scalar.
\<close>

theorem decrypt_above_search_range:
  assumes "maxAmount_search < a"
    and "generateElGamalKeypair privateKeyBytes = Inr keys"
  shows "(\<exists>e. encryptThenDecrypt a privateKeyBytes rBytes = Inl e)
       \<and> (a < CURVE_n \<and> bytesToNumberBE rBytes mod CURVE_n \<noteq> 0 \<longrightarrow>
            (\<exists>encrypted. encryptAmount a (publicKey keys) rBytes = Inr encrypted
               \<and> decryptAmount encrypted (privateKey keys)
                   = Inl (Error ''Could not decrypt amount (too large or invalid)'')))
       \<and> (CURVE_n \<le> a \<or> bytesToNumberBE rBytes mod CURVE_n = 0 \<longrightarrow>
            encryptAmount a (publicKey keys) rBytes
              = Inl (Error ''invalid scalar: out of range''))"
proof -
  from generateElGamalKeypair_Inr[OF assms(2)] obtain sk
    where sk: "1 \<le> sk" "sk < CURVE_n" "privateKey keys = numberToHex sk" "publicKey keys = sk"
    by blast
  have a1: "1 \<le> a" using assms(1) by (simp add: maxAmount_search_def)
  let ?r = "bytesToNumberBE rBytes mod CURVE_n"
  let ?ct = "\<lparr> c1 = ?r, c2 = (a + (sk * ?r) mod CURVE_n) mod CURVE_n \<rparr>"
  have good: "encryptAmount a (publicKey keys) rBytes = Inr ?ct
      \<and> decryptAmount ?ct (privateKey keys)
          = Inl (Error ''Could not decrypt amount (too large or invalid)'')"
    if "a < CURVE_n" "?r \<noteq> 0"
  proof -
    have e: "encryptAmount a (publicKey keys) rBytes = Inr ?ct"
      using encryptAmount_in_range[OF a1 that, of sk] by (simp add: sk(4))
    have "decryptAmount ?ct (privateKey keys) = recoverAmountFromPoint a"
      using decrypt_encrypted[OF sk(1,2) _ that(1), of ?r] a1 by (simp add: sk(3))
    also have "\<dots> = Inl (Error ''Could not decrypt amount (too large or invalid)'')"
      using assms(1) a1 by (simp add: recoverAmountFromPoint_cases)
    finally show ?thesis using e by simp
  qed
  have bad: "encryptAmount a (publicKey keys) rBytes = Inl (Error ''invalid scalar: out of range'')"
    if "CURVE_n \<le> a \<or> ?r = 0"
    using that encryptAmount_bad_amount[of a "publicKey keys" rBytes]
      encryptAmount_zero_draw[of rBytes a "publicKey keys"] by auto
  have "\<exists>e. encryptThenDecrypt a privateKeyBytes rBytes = Inl e"
  proof (cases "a < CURVE_n \<and> ?r \<noteq> 0")
    case True
    with good show ?thesis
      by (simp add: encryptThenDecrypt_def assms(2) bindE_def)
  next
    case False
    then have "CURVE_n \<le> a \<or> ?r = 0" by auto
    with bad show ?thesis
      by (simp add: encryptThenDecrypt_def assms(2) bindE_def)
  qed
  with good bad show ?thesis by blast
qed

theorem decrypt_above_search_range_witness:
  "maxAmount_search < 10000001
   \<and> generateElGamalKeypair (replicate 31 0 @ [7]) =
       Inr \<lparr> privateKey = ''0000000000000000000000000000000000000000000000000000000000000007'',
             publicKey = 7 \<rparr>
   \<and> 10000001 < CURVE_n \<and> bytesToNumberBE (replicate 31 0 @ [3]) mod CURVE_n \<noteq> 0
   \<and> (\<exists>encrypted. encryptAmount 10000001 7 (replicate 31 0 @ [3]) = Inr encrypted
         \<and> decryptAmount encrypted
              ''0000000000000000000000000000000000000000000000000000000000000007''
             = Inl (Error ''Could not decrypt amount (too large or invalid)''))
   \<and> bytesToNumberBE (replicate 32 0) mod CURVE_n = 0
   \<and> encryptAmount 10000001 7 (replicate 32 0) = Inl (Error ''invalid scalar: out of range'')"
proof -
  have a: "maxAmount_search < 10000001" "10000001 < CURVE_n"
    by (simp_all add: maxAmount_search_def CURVE_n_def)
  have r: "bytesToNumberBE (replicate 31 0 @ [3]) mod CURVE_n \<noteq> 0"
    by (simp add: sample_draws)
  from decrypt_above_search_range[OF a(1) sample_keypair, of "replicate 31 0 @ [3]"]
       decrypt_above_search_range[OF a(1) sample_keypair, of "replicate 32 0"]
  show ?thesis using a r sample_keypair sample_draws(2) by simp
qed

text \<open>
  The claim as stated fails. At the amount \<open>n\<close> (the group order) the exception is the
  library's, thrown by \<open>encryptAmount\<close> before anything is decrypted; and just above the
  search range the exception of \<open>decryptAmount\<close> is a plain \<open>Error\<close>, the one it throws
  for every point it cannot recover.
\<close>

theorem decrypt_error_is_not_dedicated:
  "encryptThenDecrypt CURVE_n (replicate 31 0 @ [7]) (replicate 31 0 @ [3])
     = Inl (Error ''invalid scalar: out of range'')
   \<and> encryptThenDecrypt 10000001 (replicate 31 0 @ [7]) (replicate 31 0 @ [3])
     = Inl (Error ''Could not decrypt amount (too large or invalid)'')"
proof -
  have "encryptAmount CURVE_n 7 (replicate 31 0 @ [3]) = Inl (Error ''invalid scalar: out of range'')"
    by (rule encryptAmount_bad_amount) simp
  then have 1: "encryptThenDecrypt CURVE_n (replicate 31 0 @ [7]) (replicate 31 0 @ [3])
     = Inl (Error ''invalid scalar: out of range'')"
    by (simp add: encryptThenDecrypt_def sample_keypair bindE_def)
  have a: "(1::int) \<le> 10000001" "10000001 < CURVE_n" by (simp_all add: CURVE_n_def)
  have r: "bytesToNumberBE (replicate 31 0 @ [3]) mod CURVE_n \<noteq> 0"
    by (simp add: sample_draws)
  have e: "encryptAmount 10000001 7 (replicate 31 0 @ [3])
             = Inr \<lparr> c1 = 3, c2 = (10000001 + (7 * 3) mod CURVE_n) mod CURVE_n \<rparr>"
    using encryptAmount_in_range[OF a r, of 7] by (simp only: sample_draws)
  have k: "''0000000000000000000000000000000000000000000000000000000000000007'' = numberToHex 7"
    by code_simp
  have "decryptAmount \<lparr> c1 = 3, c2 = (10000001 + (7 * 3) mod CURVE_n) mod CURVE_n \<rparr>
          ''0000000000000000000000000000000000000000000000000000000000000007''
        = recoverAmountFromPoint 10000001"
    unfolding k using a by (intro decrypt_encrypted) (simp_all add: CURVE_n_def)
  also have "\<dots> = Inl (Error ''Could not decrypt amount (too large or invalid)'')"
    by (simp add: recoverAmountFromPoint_cases maxAmount_search_def)
  finally have 2: "encryptThenDecrypt 10000001 (replicate 31 0 @ [7]) (replicate 31 0 @ [3])
     = Inl (Error ''Could not decrypt amount (too large or invalid)'')"
    by (simp add: encryptThenDecrypt_def sample_keypair e bindE_def)
  from 1 2 show ?thesis by simp
qed

subsection \<open>Strings of digits\<close>

lemma isHexDigit_digitValue:
  "isHexDigit c \<Longrightarrow> digitValue c = Some (charValue c) \<and> 0 \<le> charValue c \<and> charValue c < 16"
  by (auto simp: isHexDigit_def digitValue_def charValue_def Let_def)

lemma isDecDigit_digitValue:
  "isDecDigit c \<Longrightarrow> digitValue c = Some (charValue c) \<and> 0 \<le> charValue c \<and> charValue c < 10"
  by (auto simp: isDecDigit_def digitValue_def charValue_def Let_def)

lemma parseDigits_hex:
  "list_all isHexDigit ds \<Longrightarrow>
     parseDigits 16 acc ds = Some (foldl (\<lambda>acc c. acc * 16 + charValue c) acc ds)"
proof (induction ds arbitrary: acc)
  case Nil
  then show ?case by simp
next
  case (Cons c cs)
  then have "isHexDigit c" "list_all isHexDigit cs" by simp_all
  with Cons.IH[of "acc * 16 + charValue c"] isHexDigit_digitValue[of c]
  show ?case by simp
qed

lemma parseDigits_dec:
  "list_all isDecDigit ds \<Longrightarrow>
     parseDigits 10 acc ds = Some (foldl (\<lambda>acc c. acc * 10 + charValue c) acc ds)"
proof (induction ds arbitrary: acc)
  case Nil
  then show ?case by simp
next
  case (Cons c cs)
  then have "isDecDigit c" "list_all isDecDigit cs" by simp_all
  with Cons.IH[of "acc * 10 + charValue c"] isDecDigit_digitValue[of c]
  show ?case by simp
qed

lemma isHexDigit_not_ws: "isHexDigit c \<Longrightarrow> \<not> isWhiteSpace c"
  by (auto simp: isHexDigit_def isWhiteSpace_def Let_def)

lemma StringToBigInt_0x_hex:
  assumes "ds \<noteq> []" "list_all isHexDigit ds"
  shows "StringToBigInt (CHR ''0'' # CHR ''x'' # ds) = Some (digitsValue 16 ds)"
proof -
  have "isHexDigit (last ds)" using assms by (simp add: list_all_iff)
  then have "\<not> isWhiteSpace (last ds)" by (rule isHexDigit_not_ws)
  moreover have "\<not> isWhiteSpace (CHR ''0'')" by (simp add: isWhiteSpace_def)
  ultimately have "trim (CHR ''0'' # CHR ''x'' # ds) = CHR ''0'' # CHR ''x'' # ds"
    using assms(1) by (intro trim_id) simp_all
  then show ?thesis using assms
    by (simp add: StringToBigInt_def parseNonEmpty_def parseDigits_hex digitsValue_def)
qed

lemma hex_no_0x:
  assumes "list_all isHexDigit s"
  shows "\<not> startsWith s ''0x''"
proof
  assume "startsWith s ''0x''"
  then have "take (length ''0x'') s = ''0x''" by (simp only: startsWith_def)
  then have "CHR ''x'' \<in> set (take (length ''0x'') s)" by (simp only:) simp
  then have "CHR ''x'' \<in> set s" by (rule in_set_takeD)
  with assms have "isHexDigit (CHR ''x'')"
    unfolding list_all_iff by blast
  then show False by (simp add: isHexDigit_def)
qed

lemma toBigInt_0x_hex:
  assumes "ds \<noteq> []" "list_all isHexDigit ds"
  shows "toBigInt (CHR ''0'' # CHR ''x'' # ds) = Inr (digitsValue 16 ds)"
proof -
  have "startsWith (CHR ''0'' # CHR ''x'' # ds) ''0x''"
    by (simp add: startsWith_def)
  then show ?thesis using assms
    by (simp add: toBigInt_def BigInt_of_string_def StringToBigInt_0x_hex)
qed

lemma toBigInt_hex_letter:
  assumes "list_all isHexDigit ds" "hasHexLetter ds"
  shows "toBigInt ds = Inr (digitsValue 16 ds)"
proof -
  from assms(2) have ne: "ds \<noteq> []" by (auto simp: hasHexLetter_def)
  show ?thesis using assms ne hex_no_0x[OF assms(1)]
    by (simp add: toBigInt_def BigInt_of_string_def StringToBigInt_0x_hex)
qed

lemma toBigInt_decimal_digits:
  assumes "ds \<noteq> []" "list_all isDecDigit ds"
  shows "toBigInt ds = Inr (digitsValue 10 ds)"
proof -
  have w: "list_all (\<lambda>c. isDecDigit c \<or> c = CHR ''-'') ds"
    using assms(2) by (simp add: list_all_iff)
  have "isDecDigit (hd ds)" "isDecDigit (last ds)"
    using assms by (simp_all add: list_all_iff)
  then have "trim ds = ds"
    using assms(1) by (intro trim_id) (simp_all add: isDecDigit_not_ws)
  then have "StringToBigInt ds = Some (digitsValue 10 ds)"
    using assms by (simp add: StringToBigInt_def literal_decimal parseDigits_dec digitsValue_def)
  then show ?thesis using assms(1) not_startsWith_0x[OF w] not_hasHexLetter[OF w]
    by (simp add: toBigInt_def BigInt_of_string_def)
qed

subsection \<open>The three derivations of the Commitment Engine\<close>

text \<open>
  Claim C6, as amended. Each derivation converts its string arguments with \<open>toBigInt\<close>,
  in the order of the source, and the first conversion that throws ends the call with
  that error, before anything is hashed. When all of them convert, the engine computes
  exactly \<open>computeSenderCommitment(wallet, secret) = H(encode(wallet), s)\<close>,
  \<open>computePaymentCommitment(sender, receiver, amount, token, salt) =
  H(sc, rc, amount, encode(token), sl)\<close> and
  \<open>computePaymentNullifier(secret, paymentCommitment) = H(s, pc)\<close>, each returned as a
  decimal string; \<open>encode\<close> is \<open>addressToFieldElement\<close>, and \<open>s\<close>, \<open>sc\<close>, \<open>rc\<close>, \<open>sl\<close>,
  \<open>pc\<close> are the numbers that \<open>toBigInt\<close> reads from the strings. A commitment returned
  as a decimal string is read back as the same number, so the nullifier of a computed
  payment commitment is the hash of the secret and that commitment. \<open>toBigInt\<close> throws
  on the empty string, reads a non-empty string of decimal digits in decimal, and reads
  a non-empty string of hexadecimal digits in hexadecimal when it has the prefix \<open>0x\<close>
  or contains a letter.
\<close>

theorem commitment_engine_derivations:
  "computeSenderCommitment H walletAddress secret =
     bindE (toBigInt secret) (\<lambda>s.
     Inr (bigint_toString 10 (H [addressToFieldValue walletAddress, s])))
   \<and> computePaymentCommitment H sender receiver amt token saltHex =
       bindE (toBigInt sender) (\<lambda>sc.
       bindE (toBigInt receiver) (\<lambda>rc.
       bindE (toBigInt saltHex) (\<lambda>sl.
       Inr (bigint_toString 10 (H [sc, rc, amt, addressToFieldValue token, sl])))))
   \<and> computePaymentNullifier H secret paymentCommitment =
       bindE (toBigInt secret) (\<lambda>s.
       bindE (toBigInt paymentCommitment) (\<lambda>pc.
       Inr (bigint_toString 10 (H [s, pc]))))
   \<and> computePaymentNullifier H secret (bigint_toString 10 v) =
       bindE (toBigInt secret) (\<lambda>s. Inr (bigint_toString 10 (H [s, v])))
   \<and> toBigInt [] = Inl (Error ''Cannot convert empty string to BigInt'')
   \<and> (ds \<noteq> [] \<and> list_all isDecDigit ds \<longrightarrow> toBigInt ds = Inr (digitsValue 10 ds))
   \<and> (hs \<noteq> [] \<and> list_all isHexDigit hs \<longrightarrow> toBigInt (''0x'' @ hs) = Inr (digitsValue 16 hs))
   \<and> (list_all isHexDigit ls \<and> hasHexLetter ls \<longrightarrow> toBigInt ls = Inr (digitsValue 16 ls))"
proof (intro conjI impI)
  have enc: "toBigInt (addressToFieldElement a) = Inr (addressToFieldValue a)" for a
    by (simp add: addressToFieldElement_def toBigInt_toString10)
  show "computeSenderCommitment H walletAddress secret =
     bindE (toBigInt secret) (\<lambda>s.
     Inr (bigint_toString 10 (H [addressToFieldValue walletAddress, s])))"
    by (simp add: computeSenderCommitment_def bindE_def enc)
  show "computePaymentCommitment H sender receiver amt token saltHex =
       bindE (toBigInt sender) (\<lambda>sc.
       bindE (toBigInt receiver) (\<lambda>rc.
       bindE (toBigInt saltHex) (\<lambda>sl.
       Inr (bigint_toString 10 (H [sc, rc, amt, addressToFieldValue token, sl])))))"
    by (simp add: computePaymentCommitment_def enc bindE_def Let_def split: sum.splits)
  show "computePaymentNullifier H secret paymentCommitment =
       bindE (toBigInt secret) (\<lambda>s.
       bindE (toBigInt paymentCommitment) (\<lambda>pc.
       Inr (bigint_toString 10 (H [s, pc]))))"
    by (simp add: computePaymentNullifier_def)
  show "computePaymentNullifier H secret (bigint_toString 10 v) =
       bindE (toBigInt secret) (\<lambda>s. Inr (bigint_toString 10 (H [s, v])))"
    by (simp add: computePaymentNullifier_def toBigInt_toString10 bindE_def)
  show "toBigInt [] = Inl (Error ''Cannot convert empty string to BigInt'')"
    by (simp add: toBigInt_def)
next
  assume "ds \<noteq> [] \<and> list_all isDecDigit ds"
  then show "toBigInt ds = Inr (digitsValue 10 ds)"
    by (simp add: toBigInt_decimal_digits)
next
  assume "hs \<noteq> [] \<and> list_all isHexDigit hs"
  then show "toBigInt (''0x'' @ hs) = Inr (digitsValue 16 hs)"
    by (simp add: toBigInt_0x_hex)
next
  assume "list_all isHexDigit ls \<and> hasHexLetter ls"
  then show "toBigInt ls = Inr (digitsValue 16 ls)"
    by (simp add: toBigInt_hex_letter)
qed

theorem commitment_engine_derivations_witness:
  "toBigInt ''10'' = Inr 10 \<and> toBigInt ''0x10'' = Inr 16 \<and> toBigInt ''1a'' = Inr 26
   \<and> computeSenderCommitment sum_list ''ab'' ''10'' = Inr ''24940''
   \<and> computePaymentCommitment sum_list ''12'' ''7'' 5 ''SOL'' ''ff'' = Inr ''5460067''
   \<and> computePaymentNullifier sum_list ''0x0a'' ''5460067'' = Inr ''5460077''
   \<and> computePaymentNullifier sum_list ''0x0a'' '''' =
       Inl (Error ''Cannot convert empty string to BigInt'')"
proof -
  have d: "''10'' \<noteq> [] \<and> list_all isDecDigit ''10''" "digitsValue 10 ''10'' = 10"
    "list_all isHexDigit ''10''" "digitsValue 16 ''10'' = 16"
    "list_all isHexDigit ''1a'' \<and> hasHexLetter ''1a''" "digitsValue 16 ''1a'' = 26"
    by code_simp+
  have h: "toBigInt ''12'' = Inr 12" "toBigInt ''7'' = Inr 7" "toBigInt ''ff'' = Inr 255"
    "toBigInt ''0x0a'' = Inr 10" "toBigInt ''5460067'' = Inr 5460067"
    by code_simp+
  have e: "addressToFieldValue ''ab'' = 24930" "addressToFieldValue ''SOL'' = 5459788"
    "bigint_toString 10 24940 = ''24940''" "bigint_toString 10 5460067 = ''5460067''"
    "bigint_toString 10 5460077 = ''5460077''"
    by code_simp+
  note inst = commitment_engine_derivations[where H = sum_list and ds = "''10''" and hs = "''10''"
      and ls = "''1a''"]
  have t: "toBigInt ''10'' = Inr 10" "toBigInt ''0x10'' = Inr 16" "toBigInt ''1a'' = Inr 26"
    using inst d by simp_all
  have 1: "computeSenderCommitment sum_list ''ab'' ''10'' = Inr ''24940''"
    using inst[where walletAddress = "''ab''" and secret = "''10''"] by (simp add: t e bindE_def)
  have 2: "computePaymentCommitment sum_list ''12'' ''7'' 5 ''SOL'' ''ff'' = Inr ''5460067''"
    using inst[where sender = "''12''" and receiver = "''7''" and amt = 5 and token = "''SOL''"
        and saltHex = "''ff''"] by (simp add: h e bindE_def)
  have 3: "computePaymentNullifier sum_list ''0x0a'' ''5460067'' = Inr ''5460077''"
    using inst[where secret = "''0x0a''" and v = 5460067] by (simp add: h e bindE_def)
  have 4: "computePaymentNullifier sum_list ''0x0a'' '''' =
       Inl (Error ''Cannot convert empty string to BigInt'')"
    using inst[of _ "''0x0a''" _ _ _ _ _ "''''"] by (simp add: h bindE_def)
  show ?thesis using t 1 2 3 4 by simp
qed

text \<open>
  The claim as stated fails: the equations do not hold for all inputs. Whatever the
  hash is, \<open>computeSenderCommitment\<close> throws on an empty secret,
  \<open>computePaymentCommitment\<close> throws on a base58 address in the place of the sender
  commitment, and \<open>computePaymentNullifier\<close> throws on a base58 address in the place of
  the payment commitment; none of them returns a hash.
\<close>

theorem commitment_engine_throws_on_unconvertible_input:
  "(\<forall>H. computeSenderCommitment H ''ab'' '''' =
          Inl (Error ''Cannot convert empty string to BigInt''))
   \<and> (\<forall>H. computePaymentCommitment H ''BdDcNpsjGKdabkX1xo6XhYhUsJtADYnUT5hPmW5AoLFi'' ''7'' 5
             ''SOL'' ''ff'' =
          Inl (SyntaxError
            ''Cannot convert 0xBdDcNpsjGKdabkX1xo6XhYhUsJtADYnUT5hPmW5AoLFi to a BigInt''))
   \<and> (\<forall>H. computePaymentNullifier H ''0x0a'' ''So11111111111111111111111111111111111111112'' =
          Inl (SyntaxError
            ''Cannot convert So11111111111111111111111111111111111111112 to a BigInt''))"
proof -
  have enc: "toBigInt (addressToFieldElement a) = Inr (addressToFieldValue a)" for a
    by (simp add: addressToFieldElement_def toBigInt_toString10)
  have t: "toBigInt '''' = Inl (Error ''Cannot convert empty string to BigInt'')"
    "toBigInt ''BdDcNpsjGKdabkX1xo6XhYhUsJtADYnUT5hPmW5AoLFi'' =
       Inl (SyntaxError
            ''Cannot convert 0xBdDcNpsjGKdabkX1xo6XhYhUsJtADYnUT5hPmW5AoLFi to a BigInt'')"
    "toBigInt ''So11111111111111111111111111111111111111112'' =
       Inl (SyntaxError
            ''Cannot convert So11111111111111111111111111111111111111112 to a BigInt'')"
    "toBigInt ''0x0a'' = Inr 10"
    by code_simp+
  show ?thesis
    by (simp add: computeSenderCommitment_def computePaymentCommitment_def
        computePaymentNullifier_def enc t bindE_def Let_def)
qed

subsection \<open>Commitment determinism\<close>



lemma bytesToHex_nonempty: "bs \<noteq> [] \<Longrightarrow> bytesToHex bs \<noteq> []"
  by (cases bs) (simp_all add: bytesToHex_Cons)

lemma StringToBigInt_0x_bytesToHex:
  "bs \<noteq> [] \<Longrightarrow> StringToBigInt (CHR ''0'' # CHR ''x'' # bytesToHex bs) = Some (bytesToNumberBE bs)"
  using bytesToHex_chars[of bs]
  by (simp add: StringToBigInt_0x bytesToHex_nonempty parseDigits_bytesToHex bytesToNumberBE_def)





subsection \<open>The window of the proof-input encoding\<close>

lemma parseDigits_bound:
  "parseDigits 16 acc ds = Some v \<Longrightarrow> 0 \<le> acc \<Longrightarrow> v < (acc + 1) * 16 ^ length ds"
proof (induction ds arbitrary: acc)
  case Nil
  then show ?case by simp
next
  case (Cons c cs)
  from Cons.prems(1) obtain d where d: "digitValue c = Some d" "d < 16"
    and r: "parseDigits 16 (acc * 16 + d) cs = Some v"
    by (auto split: option.splits if_splits)
  have d0: "0 \<le> d" using d(1) by (rule digitValue_nonneg)
  with Cons.prems have nn: "0 \<le> acc * 16 + d" by simp
  from Cons.IH[OF r nn] have ih: "v < (acc * 16 + d + 1) * 16 ^ length cs" .
  have "acc * 16 + d + 1 \<le> (acc + 1) * 16" using d(2) by simp
  then have "(acc * 16 + d + 1) * 16 ^ length cs \<le> ((acc + 1) * 16) * 16 ^ length cs"
    by (intro mult_right_mono) simp_all
  also have "\<dots> = (acc + 1) * 16 ^ length (c # cs)" by simp
  finally have "(acc * 16 + d + 1) * 16 ^ length cs \<le> (acc + 1) * 16 ^ length (c # cs)" .
  with ih show ?case by (rule less_le_trans)
qed

lemma trim_0x_length:
  "\<exists>s'. trim (CHR ''0'' # CHR ''x'' # s) = CHR ''0'' # CHR ''x'' # s' \<and> length s' \<le> length s"
proof -
  have nw: "\<not> isWhiteSpace (CHR ''0'')" "\<not> isWhiteSpace (CHR ''x'')"
    by (simp_all add: isWhiteSpace_def)
  have 1: "dropWhile isWhiteSpace (CHR ''0'' # CHR ''x'' # s) = CHR ''0'' # CHR ''x'' # s"
    using nw by simp
  have 2: "dropWhile isWhiteSpace (rev s @ [CHR ''x'', CHR ''0''])
          = dropWhile isWhiteSpace (rev s) @ [CHR ''x'', CHR ''0'']"
    using nw by (simp add: dropWhile_append)
  have "trim (CHR ''0'' # CHR ''x'' # s)
          = rev (dropWhile isWhiteSpace (rev s @ [CHR ''x'', CHR ''0'']))"
    unfolding trim_def 1 by simp
  also have "\<dots> = CHR ''0'' # CHR ''x'' # rev (dropWhile isWhiteSpace (rev s))"
    unfolding 2 by simp
  finally have "trim (CHR ''0'' # CHR ''x'' # s)
          = CHR ''0'' # CHR ''x'' # rev (dropWhile isWhiteSpace (rev s))" .
  moreover have "length (rev (dropWhile isWhiteSpace (rev s))) \<le> length s"
    using length_dropWhile_le[of isWhiteSpace "rev s"] by simp
  ultimately show ?thesis by blast
qed

lemma window_literal_bounds:
  assumes "StringToBigInt (CHR ''0'' # CHR ''x'' # pubkeyWindow pubkey) = Some v"
  shows "0 \<le> v \<and> v < 2 ^ 248"
proof -
  let ?w = "pubkeyWindow pubkey"
  have lw: "length ?w \<le> 62" by (simp add: pubkeyWindow_def)
  obtain s' where t: "trim (CHR ''0'' # CHR ''x'' # ?w) = CHR ''0'' # CHR ''x'' # s'"
    and l: "length s' \<le> length ?w"
    using trim_0x_length[of ?w] by blast
  from assms have p: "parseDigits 16 0 s' = Some v"
    by (auto simp: StringToBigInt_def t parseNonEmpty_def split: if_splits)
  then have nn: "0 \<le> v" by (rule parseDigits_nonneg) simp_all
  from parseDigits_bound[OF p] have "v < 16 ^ length s'" by simp
  also have "(16::int) ^ length s' \<le> 16 ^ 62"
    using l lw by (intro power_increasing) simp_all
  also have "(16::int) ^ 62 = 2 ^ 248" by simp
  finally show ?thesis using nn by simp
qed

lemma pubkeyToFieldElement_cases:
  "pubkeyToFieldElement pubkey =
     (case StringToBigInt (''0x'' @ pubkeyWindow pubkey) of
        None \<Rightarrow> Inl (SyntaxError (''Cannot convert '' @ ''0x'' @ pubkeyWindow pubkey @ '' to a BigInt''))
      | Some v \<Rightarrow> Inr (''0x'' @ padStart 64 (CHR ''0'') (bigint_toString 16 v)))"
proof (cases "StringToBigInt (CHR ''0'' # CHR ''x'' # pubkeyWindow pubkey)")
  case None
  then show ?thesis
    by (simp add: pubkeyToFieldElement_def pubkeyWindow_def Let_def BigInt_of_string_def bindE_def)
next
  case (Some v)
  from window_literal_bounds[OF Some]
  have ens: "ensureFieldElement v ''pubkeyToFieldElement'' = Inr v"
    by (simp add: ensureFieldElement_def BN254_FIELD_MODULUS_def)
  have "BigInt_of_string (CHR ''0'' # CHR ''x'' # pubkeyWindow pubkey) = Inr v"
    using Some by (simp add: BigInt_of_string_def)
  then have "pubkeyToFieldElement pubkey
               = Inr (''0x'' @ padStart 64 (CHR ''0'') (bigint_toString 16 v))"
    using ens
    by (simp add: pubkeyToFieldElement_def Let_def bindE_def pubkeyWindow_def[symmetric])
  then show ?thesis using Some by simp
qed

lemma pubkeyWindow_hex:
  assumes "list_all isHexDigit hs"
  shows "pubkeyWindow hs = take 62 hs" "pubkeyWindow (CHR ''0'' # CHR ''x'' # hs) = take 62 hs"
proof -
  show "pubkeyWindow hs = take 62 hs"
    using hex_no_0x[OF assms] by (simp add: pubkeyWindow_def)
  have "startsWith (CHR ''0'' # CHR ''x'' # hs) ''0x''" by (simp add: startsWith_def)
  then show "pubkeyWindow (CHR ''0'' # CHR ''x'' # hs) = take 62 hs"
    by (simp add: pubkeyWindow_def)
qed

lemma pubkeyToFieldElement_hex:
  assumes "hs \<noteq> []" "list_all isHexDigit hs"
  shows "pubkeyToFieldElement hs
           = Inr (''0x'' @ padStart 64 (CHR ''0'') (bigint_toString 16 (digitsValue 16 (take 62 hs))))"
    and "pubkeyToFieldElement (''0x'' @ hs)
           = Inr (''0x'' @ padStart 64 (CHR ''0'') (bigint_toString 16 (digitsValue 16 (take 62 hs))))"
proof -
  have ne: "take 62 hs \<noteq> []" using assms(1) by simp
  have hx: "list_all isHexDigit (take 62 hs)"
    using assms(2) unfolding list_all_iff by (auto dest: in_set_takeD)
  have p: "StringToBigInt (CHR ''0'' # CHR ''x'' # take 62 hs) = Some (digitsValue 16 (take 62 hs))"
    using ne hx by (rule StringToBigInt_0x_hex)
  show "pubkeyToFieldElement hs
           = Inr (''0x'' @ padStart 64 (CHR ''0'') (bigint_toString 16 (digitsValue 16 (take 62 hs))))"
    using p by (simp add: pubkeyToFieldElement_cases pubkeyWindow_hex(1)[OF assms(2)])
  show "pubkeyToFieldElement (''0x'' @ hs)
           = Inr (''0x'' @ padStart 64 (CHR ''0'') (bigint_toString 16 (digitsValue 16 (take 62 hs))))"
    using p by (simp add: pubkeyToFieldElement_cases pubkeyWindow_hex(2)[OF assms(2)])
qed

text \<open>
  Claim C4, as amended. The two encodings are different functions of the identifier.
  \<open>addressToFieldElement\<close> reads the UTF-8 bytes of the text and answers in decimal: the
  number of the first 31 bytes, big-endian, which is below \<open>2^248\<close>.
  \<open>pubkeyToFieldElement\<close> removes one leading \<open>0x\<close>, keeps the first 62 characters and
  applies \<open>BigInt\<close> to \<open>0x\<close> followed by these characters: it throws a \<open>SyntaxError\<close>
  exactly when \<open>BigInt\<close> refuses that literal, and otherwise returns the number read,
  which is always in \<open>[0, 2^248)\<close> and so is neither reduced nor refused, as \<open>0x\<close> and
  64 hexadecimal digits. What follows the 62 characters is never read. On a non-empty
  string of hexadecimal digits, with or without the prefix \<open>0x\<close>, the number is the
  value of its first 62 digits. The two encodings denote the same number when the
  proof-input path is given the bytes of a non-empty identifier written in hexadecimal.
\<close>

theorem encodings_agree_on_hex_of_bytes:
  "(address \<noteq> [] \<longrightarrow>
      pubkeyToFieldElement (bytesToHex (TextEncoder_encode address))
        = Inr (''0x'' @ padStart 64 (CHR ''0'') (bigint_toString 16 (addressToFieldValue address))))
   \<and> addressToFieldElement address = bigint_toString 10 (addressToFieldValue address)
   \<and> addressToFieldValue address = bytesToNumberBE (take 31 (TextEncoder_encode address))
   \<and> 0 \<le> addressToFieldValue address \<and> addressToFieldValue address < 2 ^ 248
   \<and> pubkeyToFieldElement pubkey =
       (case StringToBigInt (''0x'' @ pubkeyWindow pubkey) of
          None \<Rightarrow>
            Inl (SyntaxError (''Cannot convert '' @ ''0x'' @ pubkeyWindow pubkey @ '' to a BigInt''))
        | Some v \<Rightarrow> Inr (''0x'' @ padStart 64 (CHR ''0'') (bigint_toString 16 v)))
   \<and> (\<forall>v. StringToBigInt (''0x'' @ pubkeyWindow pubkey) = Some v \<longrightarrow> 0 \<le> v \<and> v < 2 ^ 248)
   \<and> (pubkeyWindow other = pubkeyWindow pubkey \<longrightarrow>
        pubkeyToFieldElement other = pubkeyToFieldElement pubkey)
   \<and> (hs \<noteq> [] \<and> list_all isHexDigit hs \<longrightarrow>
        pubkeyToFieldElement hs
          = Inr (''0x'' @ padStart 64 (CHR ''0'')
                            (bigint_toString 16 (digitsValue 16 (take 62 hs))))
        \<and> pubkeyToFieldElement (''0x'' @ hs)
          = Inr (''0x'' @ padStart 64 (CHR ''0'')
                            (bigint_toString 16 (digitsValue 16 (take 62 hs)))))"
proof (intro conjI impI allI)
  let ?bs = "TextEncoder_encode address"
  let ?v = "foldl shiftInByte 0 (take 31 ?bs)"
  have v: "addressToFieldValue address = ?v"
    by (simp add: addressToFieldValue_window bytesToNumberBE_def)
  have vb: "0 \<le> ?v" "?v < 2 ^ 248"
    using window_value_bounds[of ?bs] by simp_all
  show "addressToFieldElement address = bigint_toString 10 (addressToFieldValue address)"
    by (simp add: addressToFieldElement_def)
  show "addressToFieldValue address = bytesToNumberBE (take 31 (TextEncoder_encode address))"
    by (rule addressToFieldValue_window)
  show "0 \<le> addressToFieldValue address" "addressToFieldValue address < 2 ^ 248"
    using vb by (simp_all add: v)
  show "pubkeyToFieldElement pubkey =
       (case StringToBigInt (''0x'' @ pubkeyWindow pubkey) of
          None \<Rightarrow>
            Inl (SyntaxError (''Cannot convert '' @ ''0x'' @ pubkeyWindow pubkey @ '' to a BigInt''))
        | Some v \<Rightarrow> Inr (''0x'' @ padStart 64 (CHR ''0'') (bigint_toString 16 v)))"
    by (rule pubkeyToFieldElement_cases)
  {
    assume ne0: "address \<noteq> []"
    have ne: "take 31 ?bs \<noteq> []"
      using TextEncoder_encode_nonempty[OF ne0] by simp
    have nopre: "\<not> startsWith (bytesToHex ?bs) ''0x''"
    proof
      assume "startsWith (bytesToHex ?bs) ''0x''"
      then have "take (length ''0x'') (bytesToHex ?bs) = ''0x''" by (simp only: startsWith_def)
      then have "CHR ''x'' \<in> set (take (length ''0x'') (bytesToHex ?bs))" by (simp only:) simp
      then have "CHR ''x'' \<in> set (bytesToHex ?bs)" by (rule in_set_takeD)
      with bytesToHex_chars[of ?bs] have "isLowerHexDigit (CHR ''x'')"
        unfolding list_all_iff by blast
      then show False by (simp add: isLowerHexDigit_def)
    qed
    have tk: "take 62 (bytesToHex ?bs) = bytesToHex (take 31 ?bs)"
      using take_bytesToHex[of 31 ?bs] by simp
    have "StringToBigInt (CHR ''0'' # CHR ''x'' # bytesToHex (take 31 ?bs)) = Some ?v"
      using StringToBigInt_0x_bytesToHex[OF ne] by (simp add: bytesToNumberBE_def)
    then have parse: "BigInt_of_string (CHR ''0'' # CHR ''x'' # bytesToHex (take 31 ?bs)) = Inr ?v"
      by (simp add: BigInt_of_string_def)
    have ens: "ensureFieldElement ?v ''pubkeyToFieldElement'' = Inr ?v"
      using vb by (simp add: ensureFieldElement_def BN254_FIELD_MODULUS_def)
    have "pubkeyToFieldElement (bytesToHex ?bs)
            = Inr (''0x'' @ padStart 64 (CHR ''0'') (bigint_toString 16 ?v))"
      using nopre by (simp add: pubkeyToFieldElement_def Let_def tk parse ens bindE_def)
    then show "pubkeyToFieldElement (bytesToHex (TextEncoder_encode address))
        = Inr (''0x'' @ padStart 64 (CHR ''0'') (bigint_toString 16 (addressToFieldValue address)))"
      by (simp add: v[symmetric])
  }
next
  fix v
  assume "StringToBigInt (''0x'' @ pubkeyWindow pubkey) = Some v"
  then have "StringToBigInt (CHR ''0'' # CHR ''x'' # pubkeyWindow pubkey) = Some v" by simp
  then show "0 \<le> v" "v < 2 ^ 248"
    using window_literal_bounds[of pubkey v] by simp_all
next
  assume "pubkeyWindow other = pubkeyWindow pubkey"
  then show "pubkeyToFieldElement other = pubkeyToFieldElement pubkey"
    by (simp only: pubkeyToFieldElement_cases)
next
  assume h: "hs \<noteq> [] \<and> list_all isHexDigit hs"
  then show "pubkeyToFieldElement hs
          = Inr (''0x'' @ padStart 64 (CHR ''0'')
                            (bigint_toString 16 (digitsValue 16 (take 62 hs))))"
    using pubkeyToFieldElement_hex(1)[of hs] by simp
  from h show "pubkeyToFieldElement (''0x'' @ hs)
          = Inr (''0x'' @ padStart 64 (CHR ''0'')
                            (bigint_toString 16 (digitsValue 16 (take 62 hs))))"
    using pubkeyToFieldElement_hex(2)[of hs] by simp
qed

theorem encodings_agree_on_hex_of_bytes_witness:
  "bytesToHex (TextEncoder_encode ''So11111111111111111111111111111111111111112'')
     = ''536f3131313131313131313131313131313131313131313131313131313131313131313131313131313132''
   \<and> pubkeyToFieldElement
         ''536f3131313131313131313131313131313131313131313131313131313131313131313131313131313132''
       = Inr ''0x00536f3131313131313131313131313131313131313131313131313131313131''
   \<and> addressToFieldElement ''So11111111111111111111111111111111111111112''
       = ''147415726439025113651997712435070090851637236945762330937368131224313344305''
   \<and> addressToFieldValue ''So11111111111111111111111111111111111111112''
       = 147415726439025113651997712435070090851637236945762330937368131224313344305
   \<and> pubkeyToFieldElement
         ''ffffffffffffffffffffffffffffffffffffffffffffffffffffffffffffffnot hex at all''
       = Inr ''0x00ffffffffffffffffffffffffffffffffffffffffffffffffffffffffffffff''
   \<and> StringToBigInt
         (''0x'' @ pubkeyWindow
                    ''ffffffffffffffffffffffffffffffffffffffffffffffffffffffffffffffnot hex at all'')
       = Some (2 ^ 248 - 1)
   \<and> pubkeyToFieldElement ''ff ''
       = Inr ''0x00000000000000000000000000000000000000000000000000000000000000ff''
   \<and> pubkeyToFieldElement ''0Xff'' = Inl (SyntaxError ''Cannot convert 0x0Xff to a BigInt'')
   \<and> pubkeyToFieldElement ''0xFf''
       = Inr ''0x00000000000000000000000000000000000000000000000000000000000000ff''
   \<and> pubkeyToFieldElement
         ''ffffffffffffffffffffffffffffffffffffffffffffffffffffffffffffffnot hex at all''
       = pubkeyToFieldElement
           ''ffffffffffffffffffffffffffffffffffffffffffffffffffffffffffffff''"
proof -
  have n: "''So11111111111111111111111111111111111111112'' \<noteq> []" by simp
  have e: "bytesToHex (TextEncoder_encode ''So11111111111111111111111111111111111111112'')
             = ''536f3131313131313131313131313131313131313131313131313131313131313131313131313131313132''"
    "addressToFieldValue ''So11111111111111111111111111111111111111112''
       = 147415726439025113651997712435070090851637236945762330937368131224313344305"
    "bigint_toString 10 147415726439025113651997712435070090851637236945762330937368131224313344305
       = ''147415726439025113651997712435070090851637236945762330937368131224313344305''"
    "''0x'' @ padStart 64 (CHR ''0'')
       (bigint_toString 16 147415726439025113651997712435070090851637236945762330937368131224313344305)
       = ''0x00536f3131313131313131313131313131313131313131313131313131313131''"
    by code_simp+
  have w: "pubkeyWindow ''ffffffffffffffffffffffffffffffffffffffffffffffffffffffffffffffnot hex at all''
             = ''ffffffffffffffffffffffffffffffffffffffffffffffffffffffffffffff''"
    "pubkeyWindow ''ff '' = ''ff ''" "pubkeyWindow ''0Xff'' = ''0Xff''"
    by code_simp+
  have p: "StringToBigInt ''0xffffffffffffffffffffffffffffffffffffffffffffffffffffffffffffff''
             = Some (2 ^ 248 - 1)"
    "StringToBigInt ''0xff '' = Some 255" "StringToBigInt ''0x0Xff'' = None"
    by code_simp+
  have r: "''0x'' @ padStart 64 (CHR ''0'') (bigint_toString 16 (2 ^ 248 - 1))
             = ''0x00ffffffffffffffffffffffffffffffffffffffffffffffffffffffffffffff''"
    "''0x'' @ padStart 64 (CHR ''0'') (bigint_toString 16 255)
       = ''0x00000000000000000000000000000000000000000000000000000000000000ff''"
    by code_simp+
  have h: "''Ff'' \<noteq> [] \<and> list_all isHexDigit ''Ff''" "digitsValue 16 (take 62 ''Ff'') = 255"
    by code_simp+
  note inst = encodings_agree_on_hex_of_bytes[where hs = "''Ff''"
      and address = "''So11111111111111111111111111111111111111112''"]
  have 1: "pubkeyToFieldElement
             ''536f3131313131313131313131313131313131313131313131313131313131313131313131313131313132''
           = Inr ''0x00536f3131313131313131313131313131313131313131313131313131313131''"
    using inst[where pubkey = "[]"] n e by simp
  have 2: "addressToFieldElement ''So11111111111111111111111111111111111111112''
           = ''147415726439025113651997712435070090851637236945762330937368131224313344305''"
    using inst[where pubkey = "[]"] e by simp
  have 3: "pubkeyToFieldElement
             ''ffffffffffffffffffffffffffffffffffffffffffffffffffffffffffffffnot hex at all''
           = Inr ''0x00ffffffffffffffffffffffffffffffffffffffffffffffffffffffffffffff''"
    using inst[where pubkey = "''ffffffffffffffffffffffffffffffffffffffffffffffffffffffffffffffnot hex at all''"]
      p(1) r(1)
    by (simp only: w append.simps option.case)
  have 4: "pubkeyToFieldElement ''ff ''
       = Inr ''0x00000000000000000000000000000000000000000000000000000000000000ff''"
    using inst[where pubkey = "''ff ''"] p(2) r(2) by (simp only: w append.simps option.case)
  have 5: "pubkeyToFieldElement ''0Xff'' = Inl (SyntaxError ''Cannot convert 0x0Xff to a BigInt'')"
    using inst[where pubkey = "''0Xff''"] p(3) by (simp only: w append.simps option.case)
  have 6: "pubkeyToFieldElement ''0xFf''
       = Inr ''0x00000000000000000000000000000000000000000000000000000000000000ff''"
    using inst[where pubkey = "[]"] h r(2) by simp
  have w2: "pubkeyWindow ''ffffffffffffffffffffffffffffffffffffffffffffffffffffffffffffff''
              = ''ffffffffffffffffffffffffffffffffffffffffffffffffffffffffffffff''"
    by code_simp
  have 7: "pubkeyToFieldElement
             ''ffffffffffffffffffffffffffffffffffffffffffffffffffffffffffffffnot hex at all''
           = pubkeyToFieldElement
               ''ffffffffffffffffffffffffffffffffffffffffffffffffffffffffffffff''"
    using inst[where pubkey = "''ffffffffffffffffffffffffffffffffffffffffffffffffffffffffffffff''"
        and other = "''ffffffffffffffffffffffffffffffffffffffffffffffffffffffffffffffnot hex at all''"]
    by (simp only: w w2 simp_thms)
  have 8: "StringToBigInt
             (''0x'' @ pubkeyWindow
                        ''ffffffffffffffffffffffffffffffffffffffffffffffffffffffffffffffnot hex at all'')
           = Some (2 ^ 248 - 1)"
    using p(1) by (simp only: w append.simps)
  show ?thesis using e(1,2) 1 2 3 4 5 6 7 8 by simp
qed

text \<open>
  The claim as stated fails: on the same identifier the two paths give different
  numbers (\<open>ff\<close> is 26214 on the commitment path and 255 on the proof-input path), and
  on a base58 address the proof-input path throws.
\<close>

theorem encodings_differ_on_same_identifier:
  "addressToFieldElement ''ff'' = ''26214''
   \<and> pubkeyToFieldElement ''ff''
       = Inr ''0x00000000000000000000000000000000000000000000000000000000000000ff''
   \<and> toBigInt ''26214'' = Inr 26214
   \<and> toBigInt ''0x00000000000000000000000000000000000000000000000000000000000000ff'' = Inr 255
   \<and> addressToFieldElement ''So11111111111111111111111111111111111111112''
       = ''147415726439025113651997712435070090851637236945762330937368131224313344305''
   \<and> pubkeyToFieldElement ''So11111111111111111111111111111111111111112''
       = Inl (SyntaxError
           ''Cannot convert 0xSo11111111111111111111111111111111111111112 to a BigInt'')"
  by code_simp

subsection \<open>The order of events in \<open>pay\<close>\<close>

lemma occurrence_after_prefix:
  assumes "xs @ ys = pre @ s # post" and "s \<notin> set xs"
  shows "\<exists>u. pre = xs @ u"
proof -
  from assms(1) obtain us where
    "(xs = pre @ us \<and> us @ ys = s # post) \<or> (xs @ us = pre \<and> ys = us @ s # post)"
    by (auto simp: append_eq_append_conv2)
  then show ?thesis
  proof
    assume a: "xs = pre @ us \<and> us @ ys = s # post"
    show ?thesis
    proof (cases us)
      case Nil
      with a show ?thesis by simp
    next
      case (Cons u us')
      with a have "u = s" by simp
      with a Cons have "s \<in> set xs" by simp
      with assms(2) show ?thesis by simp
    qed
  next
    assume "xs @ us = pre \<and> ys = us @ s # post"
    then show ?thesis by blast
  qed
qed

lemma run_ready:
  "run env (j # ready) later =
     fst (exec env j)
       @ run env (ready @ readyNow (snd (exec env j))) (later @ readyLater (snd (exec env j)))"
  by (rule run.simps)

lemma run_later: "run env [] (m # later) = run env [m] later"
  by (rule run.simps)

lemma run_done: "run env [] [] = []"
  by (rule run.simps)

lemma pay_critical_path_fails:
  assumes "env_critical env = Rejects"
  shows "pay env = [PayThrew, CallerReceivedError]"
  using assms
  by (simp add: pay_def run_later run_ready run_done readyNow_def readyLater_def)

lemma pay_keys_fail:
  assumes "env_critical env = Fulfils" "env_keys env = Rejects"
  shows "pay env =
           [AuthorizationReceived, BackgroundTaskStarted, BackgroundErrorLogged, PayReturned,
            CallerReceivedResult, BackgroundFailureHandled]"
  using assms
  by (simp add: pay_def run_later run_ready run_done readyNow_def readyLater_def)

lemma pay_merkle_later:
  assumes "env_critical env = Fulfils" "env_keys env = Fulfils" "env_merkleTiming env = LaterTurn"
  shows "pay env =
           [AuthorizationReceived, BackgroundTaskStarted, PayReturned, CallerReceivedResult]
             @ run env [] [BackgroundAfterMerkleProof]"
  using assms
  by (simp add: pay_def run_later run_ready[of env PayAfterAuthorize]
      run_ready[of env "CallerAfterPay Fulfils"] readyNow_def readyLater_def)

lemma pay_merkle_now_fails:
  assumes "env_critical env = Fulfils" "env_keys env = Fulfils" "env_merkleTiming env = SameTurn"
    and "env_merkle env = Rejects"
  shows "pay env =
           [AuthorizationReceived, BackgroundTaskStarted, PayReturned, BackgroundErrorLogged,
            CallerReceivedResult]
             @ run env [ThenReaction Rejects] []"
  using assms
  by (simp add: pay_def run_later run_ready[of env PayAfterAuthorize]
      run_ready[of env BackgroundAfterMerkleProof]
      run_ready[of env "CallerAfterPay Fulfils"] readyNow_def readyLater_def
      rethrowInBackground_def)

lemma pay_merkle_now:
  assumes "env_critical env = Fulfils" "env_keys env = Fulfils" "env_merkleTiming env = SameTurn"
    and "env_merkle env = Fulfils"
  shows "pay env =
           [AuthorizationReceived, BackgroundTaskStarted, PayReturned, MerkleProofReceived,
            CallerReceivedResult]
             @ run env (readyNow [(env_proveTiming env, BackgroundAfterProof)])
                       (readyLater [(env_proveTiming env, BackgroundAfterProof)])"
  using assms
  by (simp add: pay_def run_later run_ready[of env PayAfterAuthorize]
      run_ready[of env BackgroundAfterMerkleProof]
      run_ready[of env "CallerAfterPay Fulfils"] readyNow_def readyLater_def)

lemma pay_prefix:
  assumes "env_critical env = Fulfils"
  shows "\<exists>mid rest.
           pay env = (AuthorizationReceived # BackgroundTaskStarted
                        # (case env_keys env of Rejects \<Rightarrow> [BackgroundErrorLogged] | Fulfils \<Rightarrow> []))
                      @ PayReturned # mid @ CallerReceivedResult # rest
           \<and> set mid \<subseteq> {BackgroundErrorLogged, MerkleProofReceived}
           \<and> length mid \<le> 1"
proof (cases "env_keys env")
  case Rejects
  with assms pay_keys_fail[of env] show ?thesis
    by (intro exI[of _ "[]"] exI[of _ "[BackgroundFailureHandled]"]) simp
next
  case Fulfils
  note keys = Fulfils
  show ?thesis
  proof (cases "env_merkleTiming env")
    case LaterTurn
    with assms keys pay_merkle_later[of env] show ?thesis
      by (intro exI[of _ "[]"] exI[of _ "run env [] [BackgroundAfterMerkleProof]"]) simp
  next
    case SameTurn
    show ?thesis
    proof (cases "env_merkle env")
      case Rejects
      with assms keys SameTurn pay_merkle_now_fails[of env] show ?thesis
        by (intro exI[of _ "[BackgroundErrorLogged]"] exI[of _ "run env [ThenReaction Rejects] []"])
          simp
    next
      case Fulfils
      with assms keys SameTurn pay_merkle_now[of env] show ?thesis
        by (intro exI[of _ "[MerkleProofReceived]"]
            exI[of _ "run env (readyNow [(env_proveTiming env, BackgroundAfterProof)])
                       (readyLater [(env_proveTiming env, BackgroundAfterProof)])"])
          simp
    qed
  qed
qed

text \<open>
  Claim C8. In every run of \<open>pay\<close>, whatever the outcome and the timing of
  \<open>getMerkleProof\<close>, \<open>generateProof\<close> and \<open>settle\<close>, of the synchronous beginning of
  \<open>generateAndSubmitProof\<close> and of the callback: when the authorization succeeds,
  \<open>pay\<close> returns the result in the job that received the authorization, after it has
  only started the background task, and the caller receives the result; every event by
  which the background task ends or reports its end (the settlement response, the
  result marked as settled, the saved history, \<open>onProofComplete\<close>, the handler of a
  failure) comes after \<open>pay\<close> has returned and after the caller has received the result,
  and no continuation of the background task runs before \<open>pay\<close> has returned. When the
  authorization fails, \<open>pay\<close> throws and no background task is started.
\<close>

theorem pay_returns_before_background_completes:
  "(env_critical env = Fulfils \<longrightarrow>
      PayReturned \<in> set (pay env) \<and> CallerReceivedResult \<in> set (pay env)
      \<and> takeWhile (\<lambda>e. e \<noteq> PayReturned) (pay env)
          = AuthorizationReceived # BackgroundTaskStarted
              # (case env_keys env of Rejects \<Rightarrow> [BackgroundErrorLogged] | Fulfils \<Rightarrow> []))
   \<and> (\<forall>pre post sig. sig \<in> set completionEvents \<and> pay env = pre @ sig # post \<longrightarrow>
         PayReturned \<in> set pre \<and> CallerReceivedResult \<in> set pre)
   \<and> (\<forall>pre post step. step \<in> set backgroundProgress \<and> pay env = pre @ step # post \<longrightarrow>
         PayReturned \<in> set pre)
   \<and> (env_critical env = Rejects \<longrightarrow> pay env = [PayThrew, CallerReceivedError])"
proof (cases "env_critical env")
  case Rejects
  then have tr: "pay env = [PayThrew, CallerReceivedError]" by (rule pay_critical_path_fails)
  have no: "x \<notin> set (pay env)" if "x \<in> set completionEvents \<or> x \<in> set backgroundProgress" for x
    using that by (auto simp: tr completionEvents_def backgroundProgress_def)
  have "False" if "pay env = pre @ x # post"
    "x \<in> set completionEvents \<or> x \<in> set backgroundProgress" for pre post x
  proof -
    from that(1) have "x \<in> set (pay env)" by simp
    with no[OF that(2)] show False by simp
  qed
  then have no2: "\<not> (x \<in> set completionEvents \<and> pay env = pre @ x # post)"
    "\<not> (x \<in> set backgroundProgress \<and> pay env = pre @ x # post)" for pre post x
    by blast+
  show ?thesis
  proof (intro conjI impI allI)
    assume "env_critical env = Fulfils"
    with Rejects show "PayReturned \<in> set (pay env)" "CallerReceivedResult \<in> set (pay env)"
      "takeWhile (\<lambda>e. e \<noteq> PayReturned) (pay env)
          = AuthorizationReceived # BackgroundTaskStarted
              # (case env_keys env of Rejects \<Rightarrow> [BackgroundErrorLogged] | Fulfils \<Rightarrow> [])"
      by simp_all
  next
    fix pre post sig
    assume "sig \<in> set completionEvents \<and> pay env = pre @ sig # post"
    with no2(1) show "PayReturned \<in> set pre" "CallerReceivedResult \<in> set pre" by blast+
  next
    fix pre post step
    assume "step \<in> set backgroundProgress \<and> pay env = pre @ step # post"
    with no2(2) show "PayReturned \<in> set pre" by blast
  next
    show "pay env = [PayThrew, CallerReceivedError]" by (rule tr)
  qed
next
  case Fulfils
  let ?start = "AuthorizationReceived # BackgroundTaskStarted
                  # (case env_keys env of Rejects \<Rightarrow> [BackgroundErrorLogged] | Fulfils \<Rightarrow> [])"
  from pay_prefix[OF Fulfils] obtain mid rest where
    tr: "pay env = ?start @ PayReturned # mid @ CallerReceivedResult # rest"
    and mid: "set mid \<subseteq> {BackgroundErrorLogged, MerkleProofReceived}"
    by blast
  have st: "set ?start \<subseteq> {AuthorizationReceived, BackgroundTaskStarted, BackgroundErrorLogged}"
    by (auto split: outcome.splits)
  have tw: "takeWhile (\<lambda>e. e \<noteq> PayReturned) (pay env) = ?start"
    unfolding tr by (auto split: outcome.splits)
  have c1: "PayReturned \<in> set pre \<and> CallerReceivedResult \<in> set pre"
    if "x \<in> set completionEvents" "pay env = pre @ x # post" for pre post x
  proof -
    let ?xs = "?start @ PayReturned # mid @ [CallerReceivedResult]"
    have "x \<notin> set ?xs"
      using that(1) st mid by (auto simp: completionEvents_def split: outcome.splits)
    moreover have "?xs @ rest = pre @ x # post"
      using that(2) tr by simp
    ultimately obtain u where "pre = ?xs @ u"
      using occurrence_after_prefix[of ?xs rest pre x post] by blast
    then show ?thesis by simp
  qed
  have c2: "PayReturned \<in> set pre"
    if "x \<in> set backgroundProgress" "pay env = pre @ x # post" for pre post x
  proof -
    let ?xs = "?start @ [PayReturned]"
    have "x \<notin> set ?xs"
      using that(1) st by (auto simp: backgroundProgress_def split: outcome.splits)
    moreover have "?xs @ (mid @ CallerReceivedResult # rest) = pre @ x # post"
      using that(2) tr by simp
    ultimately obtain u where "pre = ?xs @ u"
      using occurrence_after_prefix[of ?xs "mid @ CallerReceivedResult # rest" pre x post] by blast
    then show ?thesis by simp
  qed
  have m: "PayReturned \<in> set (pay env)" "CallerReceivedResult \<in> set (pay env)"
    unfolding tr by simp_all
  show ?thesis
  proof (intro conjI impI allI)
    show "PayReturned \<in> set (pay env)" "CallerReceivedResult \<in> set (pay env)" by (rule m)+
    show "takeWhile (\<lambda>e. e \<noteq> PayReturned) (pay env) = ?start" by (rule tw)
  next
    fix pre post sig
    assume "sig \<in> set completionEvents \<and> pay env = pre @ sig # post"
    with c1 show "PayReturned \<in> set pre" "CallerReceivedResult \<in> set pre" by blast+
  next
    fix pre post step
    assume "step \<in> set backgroundProgress \<and> pay env = pre @ step # post"
    with c2 show "PayReturned \<in> set pre" by blast
  next
    assume "env_critical env = Rejects"
    with Fulfils show "pay env = [PayThrew, CallerReceivedError]" by simp
  qed
qed

theorem pay_returns_before_background_completes_witness:
  "pay allSucceedLater =
     [AuthorizationReceived, BackgroundTaskStarted, PayReturned, CallerReceivedResult,
      MerkleProofReceived, ProofGenerated, SettlementReceived, ResultMarkedSettled,
      HistorySaved] @ OnProofComplete # []
   \<and> takeWhile (\<lambda>e. e \<noteq> PayReturned) (pay allSucceedLater)
       = [AuthorizationReceived, BackgroundTaskStarted]
   \<and> PayReturned \<in> set [AuthorizationReceived, BackgroundTaskStarted, PayReturned,
        CallerReceivedResult, MerkleProofReceived, ProofGenerated, SettlementReceived,
        ResultMarkedSettled, HistorySaved]
   \<and> CallerReceivedResult \<in> set [AuthorizationReceived, BackgroundTaskStarted, PayReturned,
        CallerReceivedResult, MerkleProofReceived, ProofGenerated, SettlementReceived,
        ResultMarkedSettled, HistorySaved]
   \<and> pay allSucceedAtOnce =
       [AuthorizationReceived, BackgroundTaskStarted, PayReturned] @ MerkleProofReceived
         # [CallerReceivedResult, ProofGenerated, SettlementReceived, ResultMarkedSettled,
            HistorySaved, OnProofComplete, BackgroundFailureHandled]
   \<and> PayReturned \<in> set [AuthorizationReceived, BackgroundTaskStarted, PayReturned]
   \<and> pay keysFail =
       [AuthorizationReceived, BackgroundTaskStarted, BackgroundErrorLogged, PayReturned,
        CallerReceivedResult] @ BackgroundFailureHandled # []
   \<and> takeWhile (\<lambda>e. e \<noteq> PayReturned) (pay keysFail)
       = [AuthorizationReceived, BackgroundTaskStarted, BackgroundErrorLogged]
   \<and> CallerReceivedResult \<in> set [AuthorizationReceived, BackgroundTaskStarted,
        BackgroundErrorLogged, PayReturned, CallerReceivedResult]
   \<and> pay authorizationFails = [PayThrew, CallerReceivedError]"
proof -
  have c: "env_critical allSucceedLater = Fulfils" "env_keys allSucceedLater = Fulfils"
    "env_critical allSucceedAtOnce = Fulfils"
    "env_critical keysFail = Fulfils" "env_keys keysFail = Rejects"
    "env_critical authorizationFails = Rejects"
    by (simp_all add: allSucceedLater_def allSucceedAtOnce_def keysFail_def
        authorizationFails_def)
  have s: "OnProofComplete \<in> set completionEvents"
    "BackgroundFailureHandled \<in> set completionEvents"
    "MerkleProofReceived \<in> set backgroundProgress"
    by (simp_all add: completionEvents_def backgroundProgress_def)
  have t1: "pay allSucceedLater =
     [AuthorizationReceived, BackgroundTaskStarted, PayReturned, CallerReceivedResult,
      MerkleProofReceived, ProofGenerated, SettlementReceived, ResultMarkedSettled,
      HistorySaved] @ OnProofComplete # []"
    by code_simp
  have t2: "pay allSucceedAtOnce =
       [AuthorizationReceived, BackgroundTaskStarted, PayReturned] @ MerkleProofReceived
         # [CallerReceivedResult, ProofGenerated, SettlementReceived, ResultMarkedSettled,
            HistorySaved, OnProofComplete, BackgroundFailureHandled]"
    by code_simp
  have t3: "pay keysFail =
       [AuthorizationReceived, BackgroundTaskStarted, BackgroundErrorLogged, PayReturned,
        CallerReceivedResult] @ BackgroundFailureHandled # []"
    by code_simp
  note i1 = pay_returns_before_background_completes[of allSucceedLater]
  note i2 = pay_returns_before_background_completes[of allSucceedAtOnce]
  note i3 = pay_returns_before_background_completes[of keysFail]
  note i4 = pay_returns_before_background_completes[of authorizationFails]
  have a1: "takeWhile (\<lambda>e. e \<noteq> PayReturned) (pay allSucceedLater)
       = [AuthorizationReceived, BackgroundTaskStarted]"
    using i1 c by simp
  have a2: "PayReturned \<in> set [AuthorizationReceived, BackgroundTaskStarted, PayReturned,
        CallerReceivedResult, MerkleProofReceived, ProofGenerated, SettlementReceived,
        ResultMarkedSettled, HistorySaved]
      \<and> CallerReceivedResult \<in> set [AuthorizationReceived, BackgroundTaskStarted, PayReturned,
        CallerReceivedResult, MerkleProofReceived, ProofGenerated, SettlementReceived,
        ResultMarkedSettled, HistorySaved]"
    using i1 s(1) t1 by blast
  have a3: "PayReturned \<in> set [AuthorizationReceived, BackgroundTaskStarted, PayReturned]"
    using i2 s(3) t2 by blast
  have a4: "takeWhile (\<lambda>e. e \<noteq> PayReturned) (pay keysFail)
       = [AuthorizationReceived, BackgroundTaskStarted, BackgroundErrorLogged]"
    using i3 c by simp
  have a5: "CallerReceivedResult \<in> set [AuthorizationReceived, BackgroundTaskStarted,
        BackgroundErrorLogged, PayReturned, CallerReceivedResult]"
    using i3 s(2) t3 by blast
  have a6: "pay authorizationFails = [PayThrew, CallerReceivedError]"
    using i4 c by simp
  show ?thesis
    using t1 t2 t3 a1 a2 a3 a4 a5 a6 by (intro conjI) simp_all
qed

end
